theory Spec2Isabelle
  imports Main
begin

section \<open>Identifier generator (key-generator.js)\<close>

text \<open>
  The module builds its alphabet once: the characters with codes 48 to 122, leaving out
  the two punctuation blocks 58..64 and 91..96.
\<close>

definition alphabet :: string where
  "alphabet = map char_of
     (filter (\<lambda>i. \<not> (58 \<le> i \<and> i \<le> 64) \<and> \<not> (91 \<le> i \<and> i \<le> 96)) [48 ..< 123 :: nat])"

text \<open>
  JavaScript numbers: \<open>%\<close> takes the sign of the dividend, \<open>x | 0\<close> is the
  conversion to a signed 32-bit integer (truncate, then wrap modulo \<open>2^32\<close>). The
  counter is a double holding an integer below \<open>2^53\<close>; on that range the rounded
  quotient \<open>remainder / 62\<close> truncates to the exact integer quotient, because the
  fractional part of the exact quotient is at most \<open>61/62\<close> and the rounding error
  is at most \<open>1/64\<close>.
\<close>

definition js_rem :: "int \<Rightarrow> int \<Rightarrow> int" where
  "js_rem a b = sgn a * (\<bar>a\<bar> mod \<bar>b\<bar>)"

definition js_trunc_div :: "int \<Rightarrow> int \<Rightarrow> int" where
  "js_trunc_div a b = sgn a * sgn b * (\<bar>a\<bar> div \<bar>b\<bar>)"

definition to_int32 :: "int \<Rightarrow> int" where
  "to_int32 x = (x + 2147483648) mod 4294967296 - 2147483648"

text \<open>
  \<open>alphabet[k]\<close>: an index outside the array reads \<open>undefined\<close>, which the string
  concatenation turns into the text \<open>undefined\<close>.
\<close>

definition alphabet_at :: "int \<Rightarrow> string" where
  "alphabet_at k = (if 0 \<le> k \<and> k < int (length alphabet) then [alphabet ! nat k] else ''undefined'')"

text \<open>The \<open>do ... while (remainder)\<close> loop of \<open>create\<close>.\<close>

function key_loop :: "int \<Rightarrow> string \<Rightarrow> string" where
  "key_loop remainder key =
     (let key' = alphabet_at (js_rem remainder (int (length alphabet))) @ key;
          remainder' = to_int32 (js_trunc_div remainder (int (length alphabet)))
      in if remainder' \<noteq> 0 then key_loop remainder' key' else key')"
  by pat_completeness auto

lemma length_alphabet: "length alphabet = 62"
  unfolding alphabet_def by code_simp

lemma abs_to_int32_le: "\<bar>to_int32 x\<bar> \<le> \<bar>x\<bar>"
  unfolding to_int32_def by (cases "- 2147483648 \<le> x \<and> x < 2147483648") auto

lemma abs_js_trunc_div_less: "r \<noteq> 0 \<Longrightarrow> \<bar>js_trunc_div r 62\<bar> < \<bar>r\<bar>"
  unfolding js_trunc_div_def by (simp add: abs_mult abs_sgn_eq)

lemma js_trunc_div_zero: "js_trunc_div 0 b = 0"
  unfolding js_trunc_div_def by simp

termination key_loop
proof (relation "measure (\<lambda>(remainder, key). nat \<bar>remainder\<bar>)")
  show "wf (measure (\<lambda>(remainder, key). nat \<bar>remainder\<bar>))" by simp
next
  fix remainder :: int and key key' :: string and remainder' :: int
  assume r': "remainder' = to_int32 (js_trunc_div remainder (int (length alphabet)))"
    and nz: "remainder' \<noteq> 0"
  have "remainder \<noteq> 0"
    using r' nz by (auto simp: js_trunc_div_zero to_int32_def)
  then have "\<bar>js_trunc_div remainder 62\<bar> < \<bar>remainder\<bar>"
    by (rule abs_js_trunc_div_less)
  moreover have "\<bar>remainder'\<bar> \<le> \<bar>js_trunc_div remainder 62\<bar>"
    using r' abs_to_int32_le by (simp add: length_alphabet)
  ultimately show "((remainder', key'), (remainder, key)) \<in> measure (\<lambda>(remainder, key). nat \<bar>remainder\<bar>)"
    by simp
qed

declare key_loop.simps [simp del]

text \<open>
  The generator object: its state is the counter \<open>index\<close>. \<open>index++\<close> on a double
  stops changing the value at \<open>2^53\<close>.
\<close>

definition js_incr :: "nat \<Rightarrow> nat" where
  "js_incr i = (if int i < 9007199254740992 then i + 1 else i)"

definition gen_next :: "nat \<Rightarrow> string \<times> nat" where
  "gen_next index = (key_loop (int index) [], js_incr index)"

text \<open>The \<open>n\<close>-th value (from 0) that a generator in state \<open>index\<close> yields.\<close>

fun yielded :: "nat \<Rightarrow> nat \<Rightarrow> string" where
  "yielded 0 index = fst (gen_next index)"
| "yielded (Suc n) index = yielded n (snd (gen_next index))"

subsection \<open>Base-62 representation, as the specification words it\<close>

text \<open>
  The digits are the ASCII digits, the uppercase and the lowercase letters in code-point
  order; \<open>to_base62\<close> is the positional representation, most significant digit
  first, and \<open>value62\<close> reads such a representation back.
\<close>

definition digits62 :: string where
  "digits62 = ''0123456789ABCDEFGHIJKLMNOPQRSTUVWXYZabcdefghijklmnopqrstuvwxyz''"

definition digit_value :: "char \<Rightarrow> nat" where
  "digit_value c = length (takeWhile (\<lambda>d. d \<noteq> c) digits62)"

definition value62 :: "string \<Rightarrow> nat" where
  "value62 s = foldl (\<lambda>acc c. acc * 62 + digit_value c) 0 s"

fun to_base62 :: "nat \<Rightarrow> string" where
  "to_base62 n = (if n < 62 then [digits62 ! n] else to_base62 (n div 62) @ [digits62 ! (n mod 62)])"

declare to_base62.simps [simp del]

lemma alphabet_digits62: "alphabet = digits62"
  unfolding alphabet_def digits62_def by code_simp

lemma alphabet_code [code]:
  "alphabet = ''0123456789ABCDEFGHIJKLMNOPQRSTUVWXYZabcdefghijklmnopqrstuvwxyz''"
  by (simp add: alphabet_digits62 digits62_def)

lemma length_digits62: "length digits62 = 62"
  unfolding digits62_def by simp

lemma distinct_digits62: "distinct digits62"
  unfolding digits62_def by simp

lemma takeWhile_neq_nth:
  "distinct xs \<Longrightarrow> k < length xs \<Longrightarrow> takeWhile (\<lambda>d. d \<noteq> xs ! k) xs = take k xs"
  by (rule takeWhile_eq_take_P_nth) (auto simp: nth_eq_iff_index_eq)

lemma digit_value_nth: "k < 62 \<Longrightarrow> digit_value (digits62 ! k) = k"
  unfolding digit_value_def
  by (simp add: takeWhile_neq_nth distinct_digits62 length_digits62)

lemma value62_append: "value62 (s @ [c]) = value62 s * 62 + digit_value c"
  unfolding value62_def by simp

lemma value62_to_base62: "value62 (to_base62 n) = n"
proof (induction n rule: to_base62.induct)
  case (1 n)
  show ?case
  proof (cases "n < 62")
    case True
    then show ?thesis
      by (simp add: to_base62.simps [of n] value62_def digit_value_nth)
  next
    case False
    with 1 show ?thesis
      by (simp add: to_base62.simps [of n] value62_append digit_value_nth)
  qed
qed

lemma to_base62_nonempty: "to_base62 n \<noteq> []"
  by (subst to_base62.simps) simp

lemma set_to_base62: "set (to_base62 n) \<subseteq> set digits62"
proof (induction n rule: to_base62.induct)
  case (1 n)
  show ?case
  proof (cases "n < 62")
    case True
    then show ?thesis
      by (simp add: to_base62.simps [of n] length_digits62)
  next
    case False
    with 1 show ?thesis
      by (simp add: to_base62.simps [of n] length_digits62)
  qed
qed

lemma hd_to_base62: "hd (to_base62 n) = CHR ''0'' \<Longrightarrow> n = 0"
proof (induction n rule: to_base62.induct)
  case (1 n)
  show ?case
  proof (cases "n < 62")
    case True
    from 1(2) True have "digits62 ! n = digits62 ! 0"
      by (simp add: to_base62.simps [of n]) (simp add: digits62_def)
    with True show ?thesis
      using distinct_digits62 by (simp add: nth_eq_iff_index_eq length_digits62)
  next
    case False
    with 1(2) have "hd (to_base62 (n div 62)) = CHR ''0''"
      by (simp add: to_base62.simps [of n] to_base62_nonempty)
    with 1(1) False have "n div 62 = 0" by simp
    with False show ?thesis by simp
  qed
qed

lemma key_loop_base62:
  "0 \<le> r \<Longrightarrow> r < 133143986176 \<Longrightarrow> key_loop r key = to_base62 (nat r) @ key"
proof (induction r key rule: key_loop.induct)
  case (1 r key)
  have rem: "js_rem r 62 = r mod 62"
    using 1(2) by (cases "r = 0") (simp_all add: js_rem_def)
  have quot: "js_trunc_div r 62 = r div 62"
    using 1(2) by (cases "r = 0") (simp_all add: js_trunc_div_def)
  have small: "0 \<le> r div 62" "r div 62 < 2147483648"
    using 1(2,3) by auto
  then have wrap: "to_int32 (r div 62) = r div 62"
    by (simp add: to_int32_def)
  have digit: "alphabet_at (r mod 62) = [digits62 ! (nat r mod 62)]"
    using 1(2) length_alphabet
    by (simp add: alphabet_at_def alphabet_digits62 nat_mod_distrib)
  have step: "key_loop r key =
      (if r div 62 \<noteq> 0 then key_loop (r div 62) (digits62 ! (nat r mod 62) # key)
       else digits62 ! (nat r mod 62) # key)"
    by (subst key_loop.simps) (simp add: Let_def length_alphabet rem quot wrap digit)
  show ?case
  proof (cases "r div 62 = 0")
    case True
    then have lt: "nat r < 62" using 1(2) by (simp add: div_eq_0_iff)
    then have "to_base62 (nat r) = [digits62 ! (nat r mod 62)]"
      by (simp add: to_base62.simps [of "nat r"])
    with True step show ?thesis by simp
  next
    case False
    then have ge: "\<not> nat r < 62" using 1(2) by (simp add: div_eq_0_iff)
    have "key_loop (r div 62) (alphabet_at (r mod 62) @ key)
        = to_base62 (nat (r div 62)) @ alphabet_at (r mod 62) @ key"
      using False small 1(3)
      by (intro 1(1)) (simp_all add: length_alphabet rem quot wrap)
    moreover have "to_base62 (nat r) = to_base62 (nat r div 62) @ [digits62 ! (nat r mod 62)]"
      using ge by (simp add: to_base62.simps [of "nat r"])
    ultimately show ?thesis
      using False step 1(2) by (simp add: digit nat_div_distrib)
  qed
qed

lemma key_loop_step:
  "key_loop r key =
     (if to_int32 (js_trunc_div r 62) \<noteq> 0
      then key_loop (to_int32 (js_trunc_div r 62)) (alphabet_at (js_rem r 62) @ key)
      else alphabet_at (js_rem r 62) @ key)"
  by (subst key_loop.simps) (simp add: Let_def length_alphabet)

lemma alphabet_at_eval:
  "alphabet_at k = (if 0 \<le> k \<and> k < 62 then [digits62 ! nat k] else ''undefined'')"
  by (simp add: alphabet_at_def alphabet_digits62 length_digits62)

lemmas key_loop_eval =
  key_loop_step alphabet_at_eval js_rem_def js_trunc_div_def to_int32_def digits62_def

lemma yielded_key_loop:
  "index + n \<le> 9007199254740992 \<Longrightarrow> yielded n index = key_loop (int (index + n)) []"
proof (induction n arbitrary: index)
  case 0
  then show ?case by (simp add: gen_next_def)
next
  case (Suc n)
  then have "yielded n (Suc index) = key_loop (int (Suc index + n)) []"
    by (intro Suc.IH) simp
  with Suc.prems show ?case
    by (simp add: gen_next_def js_incr_def)
qed


text \<open>
  C1 (amended): for every \<open>n\<close> below \<open>62 * 2^31 = 133143986176\<close> the \<open>n\<close>-th
  string yielded by a fresh generator is the base-62 representation of \<open>n\<close> over the
  digits \<open>0-9\<close>, \<open>A-Z\<close>, \<open>a-z\<close>, most significant digit first: it is built from
  those digits only, reads back to \<open>n\<close>, has no leading zero digit unless it is the
  one-digit string \<open>0\<close>, and differs from every other output below that bound.
\<close>

theorem create_yields_base62:
  "n < 133143986176 \<Longrightarrow>
     yielded n 0 = to_base62 n \<and>
     set (yielded n 0) \<subseteq> set digits62 \<and>
     value62 (yielded n 0) = n \<and>
     (hd (yielded n 0) = CHR ''0'' \<longrightarrow> yielded n 0 = ''0'') \<and>
     (\<forall>m < 133143986176. yielded m 0 = yielded n 0 \<longrightarrow> m = n)"
proof -
  assume n: "n < 133143986176"
  have eq: "yielded k 0 = to_base62 k" if "k < 133143986176" for k
    using that yielded_key_loop [of 0 k] key_loop_base62 [of "int k" "[]"] by simp
  have zero: "to_base62 0 = ''0''"
    by (simp add: to_base62.simps [of 0] digits62_def)
  have "m = n" if "m < 133143986176" "yielded m 0 = yielded n 0" for m
  proof -
    from that n have "to_base62 m = to_base62 n" by (simp add: eq)
    then have "value62 (to_base62 m) = value62 (to_base62 n)" by simp
    then show ?thesis by (simp add: value62_to_base62)
  qed
  moreover have "hd (yielded n 0) = CHR ''0'' \<longrightarrow> yielded n 0 = ''0''"
    using hd_to_base62 [of n] zero by (auto simp: eq [OF n])
  ultimately show ?thesis
    using n by (simp add: eq value62_to_base62 set_to_base62)
qed

theorem create_yields_base62_witness:
  "(3843 :: nat) < 133143986176 \<and> yielded 3843 0 = ''zz'' \<and> value62 (yielded 3843 0) = 3843"
proof -
  have "to_base62 3843 = ''zz''"
    by (simp add: to_base62.simps digits62_def)
  moreover have "(3843 :: nat) < 133143986176" by simp
  ultimately show ?thesis
    using create_yields_base62 [of 3843] by metis
qed

text \<open>
  At \<open>n = 62 * 2^31\<close> the quotient \<open>2^31\<close> becomes \<open>-2^31\<close> under \<open>| 0\<close>, the
  array is read at negative indices, and the output is not a digit string; at
  \<open>n = 62 * 2^32 + 317\<close> the quotient wraps to \<open>5\<close> and the output repeats that of
  \<open>317\<close>.
\<close>

theorem create_yields_base62_counterexample:
  "yielded 133143986176 0 = ''undefinedundefinedundefinedundefinedundefinedundefined0'' \<and>
   to_base62 133143986176 = ''2LKcb20'' \<and>
   yielded 266287972669 0 = yielded 317 0"
proof -
  have y: "yielded 133143986176 0 = key_loop 133143986176 []"
    "yielded 266287972669 0 = key_loop 266287972669 []"
    "yielded 317 0 = key_loop 317 []"
    using yielded_key_loop [of 0 133143986176] yielded_key_loop [of 0 266287972669]
      yielded_key_loop [of 0 317] by simp_all
  have "key_loop 133143986176 [] = ''undefinedundefinedundefinedundefinedundefinedundefined0''"
    by (simp add: key_loop_eval)
  moreover have "key_loop 266287972669 [] = ''57''" "key_loop 317 [] = ''57''"
    by (simp_all add: key_loop_eval)
  moreover have "to_base62 133143986176 = ''2LKcb20''"
    by (simp add: to_base62.simps digits62_def)
  ultimately show ?thesis
    using y by simp
qed

section \<open>Regular expressions of the host language\<close>

text \<open>
  The plugin hands its patterns to the regular-expression engine of JavaScript. The
  engine is modelled here as the backtracking matcher of ECMAScript for the constructs
  below: character classes (ranges, possibly negated), sequence, alternation, greedy and
  lazy repetition, capturing groups, positive and negative lookahead, back-references and
  the anchors. A \<open>regexp\<close> is such a pattern with the flags \<open>g\<close>, \<open>i\<close> and \<open>m\<close>.
  A \<open>char\<close> stands for a code unit below 256; case folding under \<open>i\<close> is the one
  of the ASCII letters.
\<close>

datatype regex =
    Eps
  | Chars bool "(char \<times> char) list"
  | Seq regex regex
  | Alt regex regex
  | Star bool regex
  | Group nat regex
  | Look bool regex
  | Backref nat
  | Bol
  | Eol

record regexp =
  source :: regex
  global :: bool
  ignoreCase :: bool
  multiline :: bool

type_synonym captures = "string option list"
type_synonym mstate = "string \<times> string \<times> captures"

text \<open>
  Character classes. Under the \<open>i\<close> flag a character belongs to a range when some
  member of the range has the same canonical (upper-case) form, that is when the
  character itself or the same letter in the other case lies in the range.
\<close>

definition code :: "char \<Rightarrow> nat" where
  "code c = of_char c"

definition canonicalize :: "bool \<Rightarrow> char \<Rightarrow> char" where
  "canonicalize ic c = (if ic \<and> 97 \<le> code c \<and> code c \<le> 122 then char_of (code c - 32) else c)"

definition other_case :: "char \<Rightarrow> char" where
  "other_case c =
     (if 97 \<le> code c \<and> code c \<le> 122 then char_of (code c - 32)
      else if 65 \<le> code c \<and> code c \<le> 90 then char_of (code c + 32)
      else c)"

definition within :: "char \<times> char \<Rightarrow> char \<Rightarrow> bool" where
  "within r c = (code (fst r) \<le> code c \<and> code c \<le> code (snd r))"

definition in_range :: "bool \<Rightarrow> char \<Rightarrow> char \<times> char \<Rightarrow> bool" where
  "in_range ic c r = (within r c \<or> (ic \<and> within r (other_case c)))"

definition class_match :: "bool \<Rightarrow> bool \<Rightarrow> (char \<times> char) list \<Rightarrow> char \<Rightarrow> bool" where
  "class_match ic neg rs c = (list_ex (in_range ic c) rs \<noteq> neg)"

definition is_line_terminator :: "char \<Rightarrow> bool" where
  "is_line_terminator c = (code c = 10 \<or> code c = 13)"

fun groups_of :: "regex \<Rightarrow> nat list" where
  "groups_of (Seq r1 r2) = groups_of r1 @ groups_of r2"
| "groups_of (Alt r1 r2) = groups_of r1 @ groups_of r2"
| "groups_of (Star g r) = groups_of r"
| "groups_of (Group n r) = n # groups_of r"
| "groups_of (Look p r) = groups_of r"
| "groups_of _ = []"

definition set_capture :: "nat \<Rightarrow> string option \<Rightarrow> captures \<Rightarrow> captures" where
  "set_capture n v caps = caps[n - 1 := v]"

definition get_capture :: "captures \<Rightarrow> nat \<Rightarrow> string option" where
  "get_capture caps n = (if 1 \<le> n \<and> n \<le> length caps then caps ! (n - 1) else None)"

definition reset_captures :: "regex \<Rightarrow> captures \<Rightarrow> captures" where
  "reset_captures r caps = foldr (\<lambda>n. set_capture n None) (groups_of r) caps"

definition same_text :: "bool \<Rightarrow> string \<Rightarrow> string \<Rightarrow> bool" where
  "same_text ic s t = (map (canonicalize ic) s = map (canonicalize ic) t)"

text \<open>
  The matcher returns every way to match, in the order in which backtracking tries them;
  a state is the text consumed so far, the text still ahead and the captures. A
  repetition clears the captures of its body before each round and gives up a round that
  consumed nothing, as the engine's \<open>RepeatMatcher\<close> does.
\<close>

fun matcher :: "bool \<Rightarrow> bool \<Rightarrow> regex \<Rightarrow> mstate \<Rightarrow> mstate list" where
  "matcher ic ml Eps st = [st]"
| "matcher ic ml (Chars neg rs) (pre, [], caps) = []"
| "matcher ic ml (Chars neg rs) (pre, c # rest, caps) =
     (if class_match ic neg rs c then [(pre @ [c], rest, caps)] else [])"
| "matcher ic ml (Seq r1 r2) st = concat (map (matcher ic ml r2) (matcher ic ml r1 st))"
| "matcher ic ml (Alt r1 r2) st = matcher ic ml r1 st @ matcher ic ml r2 st"
| "matcher ic ml (Star greedy r) (pre, rest, caps) =
     (let again = concat (map
            (\<lambda>st'. if length (fst (snd st')) < length rest
                   then matcher ic ml (Star greedy r) st' else [])
            (matcher ic ml r (pre, rest, reset_captures r caps)))
      in if greedy then again @ [(pre, rest, caps)] else (pre, rest, caps) # again)"
| "matcher ic ml (Group n r) (pre, rest, caps) =
     map (\<lambda>(pre', rest', caps').
            (pre', rest', set_capture n (Some (drop (length pre) pre')) caps'))
       (matcher ic ml r (pre, rest, caps))"
| "matcher ic ml (Look positive r) (pre, rest, caps) =
     (case matcher ic ml r (pre, rest, caps) of
        [] \<Rightarrow> if positive then [] else [(pre, rest, caps)]
      | (pre', rest', caps') # _ \<Rightarrow> if positive then [(pre, rest, caps')] else [])"
| "matcher ic ml (Backref n) (pre, rest, caps) =
     (let t = (case get_capture caps n of None \<Rightarrow> [] | Some t \<Rightarrow> t)
      in if length t \<le> length rest \<and> same_text ic t (take (length t) rest)
         then [(pre @ take (length t) rest, drop (length t) rest, caps)] else [])"
| "matcher ic ml Bol (pre, rest, caps) =
     (if pre = [] \<or> (ml \<and> is_line_terminator (last pre)) then [(pre, rest, caps)] else [])"
| "matcher ic ml Eol (pre, rest, caps) =
     (if rest = [] \<or> (ml \<and> is_line_terminator (hd rest)) then [(pre, rest, caps)] else [])"


text \<open>
  \<open>RegExp.prototype.exec\<close>: the first position at or after the start index where the
  pattern matches, with the first way to match there. The result is the match array
  (\<open>full\<close> is its element 0, \<open>groups\<close> the elements from 1 on, \<open>None\<close> for
  \<open>undefined\<close>, \<open>index\<close> its property of that name) and the new \<open>lastIndex\<close>; a pattern without the \<open>g\<close> flag starts
  at 0 and leaves \<open>lastIndex\<close> alone.
\<close>

record jsmatch =
  index :: nat
  full :: string
  groups :: captures

definition ngroups :: "regex \<Rightarrow> nat" where
  "ngroups r = fold max (groups_of r) 0"

fun search :: "regexp \<Rightarrow> string \<Rightarrow> string \<Rightarrow> (jsmatch \<times> nat) option" where
  "search re pre rest =
     (case matcher (ignoreCase re) (multiline re) (source re)
             (pre, rest, replicate (ngroups (source re)) None) of
        (pre', rest', caps') # _ \<Rightarrow>
          Some (\<lparr>index = length pre, full = drop (length pre) pre', groups = caps'\<rparr>,
                length pre')
      | [] \<Rightarrow> (case rest of [] \<Rightarrow> None | c # cs \<Rightarrow> search re (pre @ [c]) cs))"

declare search.simps [simp del]

definition regexp_exec :: "regexp \<Rightarrow> string \<Rightarrow> nat \<Rightarrow> (jsmatch \<times> nat) option" where
  "regexp_exec re s lastIndex =
     (let i = (if global re then lastIndex else 0)
      in if length s < i then None
         else case search re (take i s) (drop i s) of
                None \<Rightarrow> None
              | Some (m, e) \<Rightarrow> Some (m, if global re then e else lastIndex))"


definition extends :: "mstate \<Rightarrow> mstate \<Rightarrow> bool" where
  "extends st st' = (\<exists>t. fst st' = fst st @ t \<and> fst (snd st) = t @ fst (snd st'))"

lemma extends_refl: "extends (pre, rest, caps) (pre, rest, caps')"
  by (simp add: extends_def)

lemma extends_trans: "extends a b \<Longrightarrow> extends b c \<Longrightarrow> extends a c"
  by (auto simp: extends_def)

lemma extends_caps: "extends (pre, rest, caps) st \<Longrightarrow> extends (pre, rest, caps') st"
  by (simp add: extends_def)

lemma extends_caps': "extends st (pre, rest, caps) \<Longrightarrow> extends st (pre, rest, caps')"
  by (simp add: extends_def)

lemma matcher_extends: "st' \<in> set (matcher ic ml r st) \<Longrightarrow> extends st st'"
proof (induction ic ml r st arbitrary: st' rule: matcher.induct)
  case (4 ic ml r1 r2 st)
  then obtain mid where "mid \<in> set (matcher ic ml r1 st)" "st' \<in> set (matcher ic ml r2 mid)"
    by auto
  with 4 show ?case by (blast intro: extends_trans)
next
  case (6 ic ml greedy r pre rest caps)
  show ?case
  proof (cases "st' = (pre, rest, caps)")
    case True
    then show ?thesis by (simp add: extends_refl)
  next
    case False
    with 6(3) obtain mid where mid: "mid \<in> set (matcher ic ml r (pre, rest, reset_captures r caps))"
      "length (fst (snd mid)) < length rest" "st' \<in> set (matcher ic ml (Star greedy r) mid)"
      by (auto simp: Let_def split: if_splits)
    from 6(1) mid(1) have "extends (pre, rest, caps) mid"
      by (blast intro: extends_caps)
    moreover from 6(2) mid have "extends mid st'" by blast
    ultimately show ?thesis by (rule extends_trans)
  qed
next
  case (7 ic ml n r pre rest caps)
  then show ?case by (auto intro: extends_caps')
next
  case (8 ic ml positive r pre rest caps)
  then show ?case by (auto simp: extends_refl split: list.splits if_splits)
next
  case (9 ic ml n pre rest caps)
  then show ?case by (auto simp: extends_def Let_def split: if_splits)
qed (auto simp: extends_def split: if_splits)

lemma search_bounds:
  "search re pre rest = Some (m, e) \<Longrightarrow>
     length pre \<le> e \<and> e \<le> length pre + length rest \<and> (full m \<noteq> [] \<longrightarrow> length pre < e)"
proof (induction re pre rest rule: search.induct)
  case (1 re pre rest)
  show ?case
  proof (cases "matcher (ignoreCase re) (multiline re) (source re)
                  (pre, rest, replicate (ngroups (source re)) None)")
    case Nil
    then have "search re pre rest = (case rest of [] \<Rightarrow> None | c # cs \<Rightarrow> search re (pre @ [c]) cs)"
      by (subst search.simps) simp
    with 1(2) obtain c cs where rest: "rest = c # cs"
      and rec: "search re (pre @ [c]) cs = Some (m, e)"
      by (cases rest) auto
    from 1(1) [OF Nil rest rec] rest show ?thesis by simp
  next
    case (Cons st sts)
    then have "extends (pre, rest, replicate (ngroups (source re)) None) st"
      by (intro matcher_extends [of _ "ignoreCase re" "multiline re" "source re"]) simp
    moreover from Cons have "search re pre rest =
        Some (\<lparr>index = length pre, full = drop (length pre) (fst st), groups = snd (snd st)\<rparr>,
              length (fst st))"
      by (subst search.simps) (simp split: prod.splits)
    ultimately show ?thesis
      using 1(2) by (auto simp: extends_def)
  qed
qed

lemma regexp_exec_bounds:
  "regexp_exec re s i = Some (m, e) \<Longrightarrow> global re \<Longrightarrow>
     i \<le> e \<and> e \<le> length s \<and> (full m \<noteq> [] \<longrightarrow> i < e)"
  using search_bounds [of re "take i s" "drop i s"]
  by (auto simp: regexp_exec_def Let_def split: if_splits option.splits)

text \<open>
  \<open>String.prototype.match\<close>: without the \<open>g\<close> flag the match array of \<open>exec\<close>;
  with it, the texts of all matches from index 0 on (\<open>exec_all\<close>), an empty match
  moving the index one further; \<open>None\<close> is the \<open>null\<close> of no match.
\<close>

function exec_all :: "regexp \<Rightarrow> string \<Rightarrow> nat \<Rightarrow> jsmatch list" where
  "exec_all re s lastIndex =
     (case regexp_exec (re\<lparr>global := True\<rparr>) s lastIndex of
        None \<Rightarrow> []
      | Some (m, e) \<Rightarrow> m # exec_all re s (if full m = [] then e + 1 else e))"
  by pat_completeness auto
termination
proof (relation "measure (\<lambda>(re, s, i). Suc (length s) - i)")
  fix re :: regexp and s :: string and lastIndex :: nat and x2 x y
  assume "regexp_exec (re\<lparr>global := True\<rparr>) s lastIndex = Some x2"
    and "(x, y) = x2"
  then have "regexp_exec (re\<lparr>global := True\<rparr>) s lastIndex = Some (x, y)" by simp
  from regexp_exec_bounds [OF this]
  show "((re, s, if full x = [] then y + 1 else y), re, s, lastIndex)
          \<in> measure (\<lambda>(re, s, i). Suc (length s) - i)"
    by auto
qed simp

declare exec_all.simps [simp del]

definition string_match :: "string \<Rightarrow> regexp \<Rightarrow> string option list option" where
  "string_match s re =
     (if global re
      then (case exec_all re s 0 of [] \<Rightarrow> None | ms \<Rightarrow> Some (map (\<lambda>m. Some (full m)) ms))
      else (case regexp_exec re s 0 of
              None \<Rightarrow> None
            | Some (m, e) \<Rightarrow> Some (Some (full m) # groups m)))"

text \<open>Literal patterns and \<open>r+\<close>.\<close>

definition lit :: "char \<Rightarrow> regex" where
  "lit c = Chars False [(c, c)]"

definition plus :: "regex \<Rightarrow> regex" where
  "plus r = Seq r (Star True r)"

fun lits :: "string \<Rightarrow> regex" where
  "lits [] = Eps"
| "lits [c] = lit c"
| "lits (c # cs) = Seq (lit c) (lits cs)"

section \<open>Module filter\<close>

text \<open>
  \<open>filterModule\<close> of the plugin. The subject of the next round is
  \<open>matches[matches.length - 1]\<close>, which is \<open>undefined\<close> when that group took no
  part in the match; calling \<open>match\<close> on \<open>undefined\<close> throws a \<open>TypeError\<close>.
\<close>

datatype js_error = TypeError

definition array_last :: "'a option list \<Rightarrow> 'a option" where
  "array_last xs = (if xs = [] then None else last xs)"

fun filterModule :: "string option \<Rightarrow> regexp list \<Rightarrow> js_error + bool" where
  "filterModule moduleRequest [] = Inr True"
| "filterModule None (p # ps) = Inl TypeError"
| "filterModule (Some req) (p # ps) =
     (case string_match req p of
        None \<Rightarrow> Inr False
      | Some matches \<Rightarrow> filterModule (array_last matches) ps)"

text \<open>
  The chain of the README, \<open>[ /[a-z]+([0-9]+)\\.js$/, /12/ ]\<close>; a chain whose first
  pattern \<open>/a(b)/g\<close> carries the \<open>g\<close> flag, followed by \<open>/^b$/\<close>; and the pattern
  \<open>/a|(b)/\<close>, whose only group takes no part in a match of \<open>a\<close>.
\<close>

definition readme_filter_js :: regexp where
  "readme_filter_js =
     \<lparr>source = Seq (plus (Chars False [(CHR ''a'', CHR ''z'')]))
                (Seq (Group 1 (plus (Chars False [(CHR ''0'', CHR ''9'')])))
                   (Seq (lits ''.js'') Eol)),
      global = False, ignoreCase = False, multiline = False\<rparr>"

definition readme_filter_12 :: regexp where
  "readme_filter_12 =
     \<lparr>source = lits ''12'', global = False, ignoreCase = False, multiline = False\<rparr>"

lemma filterModule_readme:
  "filterModule (Some ''foobar11.js'') [readme_filter_js, readme_filter_12] = Inr False"
  "filterModule (Some ''foobar12.css'') [readme_filter_js, readme_filter_12] = Inr False"
  "filterModule (Some ''foobar12.js'') [readme_filter_js, readme_filter_12] = Inr True"
  by code_simp+

definition global_ab :: regexp where
  "global_ab = \<lparr>source = Seq (lit CHR ''a'') (Group 1 (lit CHR ''b'')),
                 global = True, ignoreCase = False, multiline = False\<rparr>"

definition only_b :: regexp where
  "only_b = \<lparr>source = Seq Bol (Seq (lit CHR ''b'') Eol),
              global = False, ignoreCase = False, multiline = False\<rparr>"

definition a_or_group_b :: regexp where
  "a_or_group_b = \<lparr>source = Alt (lit CHR ''a'') (Group 1 (lit CHR ''b'')),
                    global = False, ignoreCase = False, multiline = False\<rparr>"

text \<open>
  The rounds of the filter. With no pattern left the unit is accepted; a pattern that does
  not match the subject rejects the unit at once; after a match of a pattern without the
  \<open>g\<close> flag the next subject is the full match when the pattern has no capturing
  group, and the text of the last capturing group when that group took part in the
  match. The chain \<open>[ /[a-z]+([0-9]+)\\.js$/, /12/ ]\<close> of the README rejects
  \<open>foobar11.js\<close> and \<open>foobar12.css\<close> and accepts \<open>foobar12.js\<close>.
\<close>

lemma filterModule_chain:
  "filterModule (Some req) [] = Inr True \<and>
   (string_match req p = None \<longrightarrow> filterModule (Some req) (p # ps) = Inr False) \<and>
   (\<not> global p \<and> regexp_exec p req 0 = Some (m, e) \<and> groups m = [] \<longrightarrow>
      filterModule (Some req) (p # ps) = filterModule (Some (full m)) ps) \<and>
   (\<not> global p \<and> regexp_exec p req 0 = Some (m, e) \<and> groups m \<noteq> [] \<and>
    last (groups m) = Some t \<longrightarrow>
      filterModule (Some req) (p # ps) = filterModule (Some t) ps) \<and>
   filterModule (Some ''foobar11.js'') [readme_filter_js, readme_filter_12] = Inr False \<and>
   filterModule (Some ''foobar12.css'') [readme_filter_js, readme_filter_12] = Inr False \<and>
   filterModule (Some ''foobar12.js'') [readme_filter_js, readme_filter_12] = Inr True"
proof -
  have "string_match req p = None \<longrightarrow> filterModule (Some req) (p # ps) = Inr False"
    by simp
  moreover have "\<not> global p \<and> regexp_exec p req 0 = Some (m, e) \<and> groups m = [] \<longrightarrow>
      filterModule (Some req) (p # ps) = filterModule (Some (full m)) ps"
    by (simp add: string_match_def array_last_def)
  moreover have "\<not> global p \<and> regexp_exec p req 0 = Some (m, e) \<and> groups m \<noteq> [] \<and>
      last (groups m) = Some t \<longrightarrow>
      filterModule (Some req) (p # ps) = filterModule (Some t) ps"
    by (simp add: string_match_def array_last_def)
  ultimately show ?thesis
    using filterModule_readme by simp
qed

lemma filterModule_chain_readme_rounds:
  "regexp_exec readme_filter_js ''foobar12.js'' 0 = Some (\<lparr>index = 0, full = ''foobar12.js'', groups = [Some ''12'']\<rparr>, 0) \<and>
   filterModule (Some ''foobar12.js'') [readme_filter_js, readme_filter_12]
     = filterModule (Some ''12'') [readme_filter_12] \<and>
   string_match ''11'' readme_filter_12 = None \<and>
   filterModule (Some ''11'') [readme_filter_12] = Inr False"
proof -
  have ex: "regexp_exec readme_filter_js ''foobar12.js'' 0
      = Some (\<lparr>index = 0, full = ''foobar12.js'', groups = [Some ''12'']\<rparr>, 0)"
    by code_simp
  have ng: "\<not> global readme_filter_js"
    by (simp add: readme_filter_js_def)
  have none: "string_match ''11'' readme_filter_12 = None"
    by code_simp
  from filterModule_chain [of "''foobar12.js''" readme_filter_js "[readme_filter_12]"
      "\<lparr>index = 0, full = ''foobar12.js'', groups = [Some ''12'']\<rparr>" 0 "''12''"] ex ng
  have "filterModule (Some ''foobar12.js'') [readme_filter_js, readme_filter_12]
     = filterModule (Some ''12'') [readme_filter_12]"
    by simp
  moreover from filterModule_chain [of "''11''" readme_filter_12 "[]"] none
  have "filterModule (Some ''11'') [readme_filter_12] = Inr False"
    by simp
  ultimately show ?thesis using ex none by simp
qed

text \<open>
  C6: the filter is documented to hand the last matched group of a pattern to the next
  pattern. For a pattern with the \<open>g\<close> flag it does not: \<open>match\<close> then returns the
  full texts of all matches, and the next subject is the last full match. The pattern
  \<open>/a(b)/g\<close> matches \<open>ab\<close> with group \<open>b\<close>, and \<open>/^b$/\<close> accepts \<open>b\<close>, yet the
  chain \<open>[ /a(b)/g, /^b$/ ]\<close> rejects \<open>ab\<close>, which the same chain without the flag
  accepts.
\<close>

theorem filterModule_global_flag_subject:
  "regexp_exec global_ab ''ab'' 0 = Some (\<lparr>index = 0, full = ''ab'', groups = [Some ''b'']\<rparr>, 2) \<and>
   string_match ''ab'' global_ab = Some [Some ''ab''] \<and>
   filterModule (Some ''b'') [only_b] = Inr True \<and>
   filterModule (Some ''ab'') [global_ab, only_b] = Inr False \<and>
   filterModule (Some ''ab'') [global_ab\<lparr>global := False\<rparr>, only_b] = Inr True"
  by code_simp

text \<open>
  C10: the module filter can fail. When a pattern matches, the last element of its match
  array is \<open>undefined\<close> and another pattern follows, the next round calls \<open>match\<close>
  on \<open>undefined\<close> and the filter ends in a \<open>TypeError\<close> instead of a boolean; the
  chain \<open>[ /a|(b)/, /12/ ]\<close> on \<open>a\<close> reaches that branch.
\<close>

theorem filterModule_undefined_subject:
  "string_match req p = Some matches \<Longrightarrow> array_last matches = None \<Longrightarrow> ps \<noteq> [] \<Longrightarrow>
     filterModule (Some req) (p # ps) = Inl TypeError"
  by (cases ps) simp_all

theorem filterModule_undefined_subject_witness:
  "string_match ''a'' a_or_group_b = Some [Some ''a'', None] \<and>
   array_last [Some ''a'', None] = None \<and>
   filterModule (Some ''a'') [a_or_group_b, readme_filter_12] = Inl TypeError"
proof -
  have m: "string_match ''a'' a_or_group_b = Some [Some ''a'', None]"
    by code_simp
  have l: "array_last [Some ''a'', None :: string option] = None"
    by (simp add: array_last_def)
  from filterModule_undefined_subject [OF m l, of "[readme_filter_12]"] m l
  show ?thesis by simp
qed


section \<open>Replacing in strings\<close>

text \<open>
  \<open>String.prototype.replace\<close> with a regular expression and a replacement string.
  \<open>get_substitution\<close> expands the replacement string as the language's
  \<open>GetSubstitution\<close> does: \<open>$$\<close> is a dollar sign, \<open>$&\<close> the matched text,
  \<open>$\<close> with a backquote the text before the match, \<open>$\<close> with a quote the text
  after it, \<open>$n\<close> and \<open>$nn\<close> the capture of that number when the pattern has that many
  groups, and anything else stands for itself. \<open>splice\<close> puts the expansions in the
  place of the matches.
\<close>

definition is_digit :: "char \<Rightarrow> bool" where
  "is_digit c = (48 \<le> code c \<and> code c \<le> 57)"

definition digit_of :: "char \<Rightarrow> nat" where
  "digit_of c = code c - 48"

definition capture_ref :: "captures \<Rightarrow> nat \<Rightarrow> string \<Rightarrow> string" where
  "capture_ref caps i ref =
     (if 1 \<le> i \<and> i \<le> length caps
      then (case caps ! (i - 1) of None \<Rightarrow> [] | Some t \<Rightarrow> t)
      else ref)"

fun get_substitution :: "string \<Rightarrow> string \<Rightarrow> nat \<Rightarrow> captures \<Rightarrow> string \<Rightarrow> string" where
  "get_substitution matched str position caps [] = []"
| "get_substitution matched str position caps [c] = [c]"
| "get_substitution matched str position caps (c # d # rest) =
     (if c \<noteq> CHR ''$'' then c # get_substitution matched str position caps (d # rest)
      else if d = CHR ''$'' then CHR ''$'' # get_substitution matched str position caps rest
      else if d = CHR ''&'' then matched @ get_substitution matched str position caps rest
      else if d = CHR 0x60 then take position str @ get_substitution matched str position caps rest
      else if d = CHR 0x27
        then drop (position + length matched) str @ get_substitution matched str position caps rest
      else if is_digit d then
        (case rest of
           [] \<Rightarrow> capture_ref caps (digit_of d) [c, d]
         | d2 # rest' \<Rightarrow>
             if is_digit d2 \<and> 10 * digit_of d + digit_of d2 \<le> length caps
             then capture_ref caps (10 * digit_of d + digit_of d2) [c, d, d2]
                    @ get_substitution matched str position caps rest'
             else capture_ref caps (digit_of d) [c, d]
                    @ get_substitution matched str position caps rest)
      else c # get_substitution matched str position caps (d # rest))"

fun splice :: "string \<Rightarrow> string \<Rightarrow> string \<Rightarrow> nat \<Rightarrow> jsmatch list \<Rightarrow> string" where
  "splice s replaceValue accumulated nextSourcePosition [] =
     accumulated @ drop nextSourcePosition s"
| "splice s replaceValue accumulated nextSourcePosition (m # ms) =
     (let position = min (index m) (length s) in
      if nextSourcePosition \<le> position
      then splice s replaceValue
             (accumulated @ take (position - nextSourcePosition) (drop nextSourcePosition s)
                @ get_substitution (full m) s position (groups m) replaceValue)
             (position + length (full m)) ms
      else splice s replaceValue accumulated nextSourcePosition ms)"

definition string_replace :: "string \<Rightarrow> regexp \<Rightarrow> string \<Rightarrow> string" where
  "string_replace s re replaceValue =
     splice s replaceValue [] 0
       (if global re then exec_all re s 0
        else (case regexp_exec re s 0 of None \<Rightarrow> [] | Some (m, e) \<Rightarrow> [m]))"

section \<open>Names of the output files\<close>

text \<open>
  \<open>chunkName.replace(/[^a-z0-9.\\-_]+/gi, '-')\<close> of the \<open>done\<close> hook.
\<close>

definition unsafe_chunk_chars :: regexp where
  "unsafe_chunk_chars =
     \<lparr>source = plus (Chars True [(CHR ''a'', CHR ''z''), (CHR ''0'', CHR ''9''),
                 (CHR ''.'', CHR ''.''), (CHR ''-'', CHR ''-''), (CHR ''_'', CHR ''_'')]),
      global = True, ignoreCase = True, multiline = False\<rparr>"

definition safeChunkName :: "string \<Rightarrow> string" where
  "safeChunkName chunkName = string_replace chunkName unsafe_chunk_chars ''-''"


text \<open>
  The characters of the class \<open>[A-Za-z0-9.\\-_]\<close>, and the renaming in which every
  maximal run of other characters becomes one \<open>-\<close>.
\<close>

definition allowed_char :: "char \<Rightarrow> bool" where
  "allowed_char c =
     ((65 \<le> code c \<and> code c \<le> 90) \<or> (97 \<le> code c \<and> code c \<le> 122) \<or>
      (48 \<le> code c \<and> code c \<le> 57) \<or> c = CHR ''.'' \<or> c = CHR ''-'' \<or> c = CHR ''_'')"

function collapse_runs :: "string \<Rightarrow> string" where
  "collapse_runs [] = []"
| "collapse_runs (c # cs) =
     (if allowed_char c then c # collapse_runs cs
      else CHR ''-'' # collapse_runs (dropWhile (\<lambda>c. \<not> allowed_char c) cs))"
  by pat_completeness auto
termination
  by (relation "measure length") (auto simp: length_dropWhile_le less_Suc_eq_le)

abbreviation unsafe_class :: regex where
  "unsafe_class \<equiv> Chars True [(CHR ''a'', CHR ''z''), (CHR ''0'', CHR ''9''),
                 (CHR ''.'', CHR ''.''), (CHR ''-'', CHR ''-''), (CHR ''_'', CHR ''_'')]"

lemma code_less: "code c < 256"
  by (simp add: code_def)

lemma code_eq_iff: "code c = code d \<longleftrightarrow> c = d"
  by (simp add: code_def)

lemma unsafe_class_match:
  "class_match True True [(CHR ''a'', CHR ''z''), (CHR ''0'', CHR ''9''),
       (CHR ''.'', CHR ''.''), (CHR ''-'', CHR ''-''), (CHR ''_'', CHR ''_'')] c
     = (\<not> allowed_char c)"
proof -
  have eq: "c = CHR ''.'' \<longleftrightarrow> code c = 46" "c = CHR ''-'' \<longleftrightarrow> code c = 45"
    "c = CHR ''_'' \<longleftrightarrow> code c = 95"
    using code_eq_iff [of c "CHR ''.''"] code_eq_iff [of c "CHR ''-''"] code_eq_iff [of c "CHR ''_''"]
    by (simp_all add: code_def)
  have up: "code (char_of (code c + 32)) = code c + 32" if "code c \<le> 90"
    using that by (simp add: code_def)
  have low: "code (char_of (code c - 32)) = code c - 32"
  proof -
    have "code c - 32 < 256" using code_less [of c] by simp
    then show ?thesis by (simp add: code_def)
  qed
  show ?thesis
    unfolding class_match_def in_range_def within_def other_case_def allowed_char_def eq
    using up low by (auto simp: code_def)
qed


lemma star_unsafe:
  "\<exists>others. matcher True False (Star True unsafe_class) (pre, rest, caps) =
     (pre @ takeWhile (\<lambda>c. \<not> allowed_char c) rest, dropWhile (\<lambda>c. \<not> allowed_char c) rest, caps)
       # others"
proof (induction rest arbitrary: pre)
  case Nil
  show ?case by (simp add: reset_captures_def)
next
  case (Cons c cs)
  show ?case
  proof (cases "allowed_char c")
    case True
    then show ?thesis
      by (simp add: reset_captures_def unsafe_class_match)
  next
    case False
    from Cons [of "pre @ [c]"] obtain others where
      "matcher True False (Star True unsafe_class) (pre @ [c], cs, caps) =
         (pre @ c # takeWhile (\<lambda>c. \<not> allowed_char c) cs, dropWhile (\<lambda>c. \<not> allowed_char c) cs, caps)
           # others"
      by auto
    with False show ?thesis
      by (simp add: reset_captures_def unsafe_class_match del: matcher.simps(6))
        (simp add: matcher.simps(6) [of _ _ _ _ pre] reset_captures_def unsafe_class_match)
  qed
qed

lemma plus_unsafe:
  "matcher True False (plus unsafe_class) (pre, rest, caps) =
     (case rest of
        [] \<Rightarrow> []
      | c # cs \<Rightarrow> if allowed_char c then []
                 else matcher True False (Star True unsafe_class) (pre @ [c], cs, caps))"
  by (cases rest) (simp_all add: plus_def unsafe_class_match del: matcher.simps(6))

lemma unsafe_chunk_chars_fields:
  "source unsafe_chunk_chars = plus unsafe_class"
  "ignoreCase unsafe_chunk_chars = True"
  "multiline unsafe_chunk_chars = False"
  "global unsafe_chunk_chars = True"
  "ngroups (plus unsafe_class) = 0"
  by (simp_all add: unsafe_chunk_chars_def ngroups_def plus_def)

lemma search_unsafe:
  "search unsafe_chunk_chars pre rest =
     (case dropWhile allowed_char rest of
        [] \<Rightarrow> None
      | c # cs \<Rightarrow>
          Some (\<lparr>index = length pre + length (takeWhile allowed_char rest),
                 full = c # takeWhile (\<lambda>c. \<not> allowed_char c) cs, groups = []\<rparr>,
                length pre + length (takeWhile allowed_char rest)
                  + Suc (length (takeWhile (\<lambda>c. \<not> allowed_char c) cs))))"
proof (induction rest arbitrary: pre)
  case Nil
  show ?case
    by (subst search.simps) (simp add: unsafe_chunk_chars_fields plus_unsafe)
next
  case (Cons c cs)
  show ?case
  proof (cases "allowed_char c")
    case True
    then have "search unsafe_chunk_chars pre (c # cs) = search unsafe_chunk_chars (pre @ [c]) cs"
      by (subst search.simps) (simp add: unsafe_chunk_chars_fields plus_unsafe)
    with True show ?thesis
      by (cases "dropWhile allowed_char cs") (simp_all add: Cons del: dropWhile_eq_Nil_conv)
  next
    case False
    obtain others where
      "matcher True False (Star True unsafe_class) (pre @ [c], cs, []) =
         ((pre @ [c]) @ takeWhile (\<lambda>c. \<not> allowed_char c) cs, dropWhile (\<lambda>c. \<not> allowed_char c) cs, [])
           # others"
      using star_unsafe [of "pre @ [c]" cs "[]"] by auto
    with False show ?thesis
      by (subst search.simps)
        (simp add: unsafe_chunk_chars_fields plus_unsafe del: matcher.simps(6))
  qed
qed


lemma exec_unsafe:
  assumes "li \<le> length s"
  shows "regexp_exec (unsafe_chunk_chars\<lparr>global := True\<rparr>) s li =
     (case dropWhile allowed_char (drop li s) of
        [] \<Rightarrow> None
      | c # cs \<Rightarrow>
          Some (\<lparr>index = li + length (takeWhile allowed_char (drop li s)),
                 full = c # takeWhile (\<lambda>c. \<not> allowed_char c) cs, groups = []\<rparr>,
                li + length (takeWhile allowed_char (drop li s))
                  + Suc (length (takeWhile (\<lambda>c. \<not> allowed_char c) cs))))"
proof -
  have same: "unsafe_chunk_chars\<lparr>global := True\<rparr> = unsafe_chunk_chars"
    by (simp add: unsafe_chunk_chars_def)
  show ?thesis
    using assms unfolding same regexp_exec_def
    by (cases "dropWhile allowed_char (drop li s)")
      (simp_all add: unsafe_chunk_chars_fields search_unsafe del: dropWhile_eq_Nil_conv)
qed

lemma collapse_runs_allowed: "\<forall>c \<in> set xs. allowed_char c \<Longrightarrow> collapse_runs xs = xs"
  by (induction xs) simp_all

lemma collapse_runs_split:
  "collapse_runs xs = takeWhile allowed_char xs @ collapse_runs (dropWhile allowed_char xs)"
  by (induction xs) simp_all

lemma splice_unsafe:
  "li \<le> length s \<Longrightarrow>
     splice s ''-'' acc li (exec_all unsafe_chunk_chars s li) = acc @ collapse_runs (drop li s)"
proof (induction "length s - li" arbitrary: li acc rule: less_induct)
  case less
  let ?xs = "drop li s"
  show ?case
  proof (cases "dropWhile allowed_char ?xs")
    case Nil
    then have "exec_all unsafe_chunk_chars s li = []"
      using less.prems
      by (subst exec_all.simps) (simp add: exec_unsafe del: dropWhile_eq_Nil_conv)
    moreover from Nil have "collapse_runs ?xs = ?xs"
      by (intro collapse_runs_allowed) simp
    ultimately show ?thesis by simp
  next
    case (Cons c cs)
    let ?i = "li + length (takeWhile allowed_char ?xs)"
    let ?run = "c # takeWhile (\<lambda>c. \<not> allowed_char c) cs"
    let ?e = "?i + length ?run"
    let ?m = "\<lparr>index = ?i, full = ?run, groups = []\<rparr>"
    have xs: "?xs = takeWhile allowed_char ?xs @ c # cs"
      using Cons takeWhile_dropWhile_id [of allowed_char ?xs] by simp
    have cs: "cs = takeWhile (\<lambda>c. \<not> allowed_char c) cs @ dropWhile (\<lambda>c. \<not> allowed_char c) cs"
      by simp
    have len: "length ?xs = length (takeWhile allowed_char ?xs) + Suc (length cs)"
      using arg_cong [OF xs, of length] by simp
    have "length (takeWhile (\<lambda>c. \<not> allowed_char c) cs) \<le> length cs"
      by (rule length_takeWhile_le)
    with len less.prems have e_le: "?e \<le> length s" and i_le: "?i \<le> length s"
      by simp_all
    have c_bad: "\<not> allowed_char c"
      using Cons hd_dropWhile [of allowed_char ?xs] by simp
    have all: "exec_all unsafe_chunk_chars s li = ?m # exec_all unsafe_chunk_chars s ?e"
      using less.prems Cons by (subst exec_all.simps) (simp add: exec_unsafe)
    have "drop ?e s = drop (length (takeWhile allowed_char ?xs) + length ?run) ?xs"
      by (simp add: add.commute add.left_commute)
    also have "\<dots> = drop (length ?run) (c # cs)"
      by (subst xs) simp
    also have "\<dots> = dropWhile (\<lambda>c. \<not> allowed_char c) cs"
      by (simp add: dropWhile_eq_drop)
    finally have rest: "drop ?e s = dropWhile (\<lambda>c. \<not> allowed_char c) cs" .
    have between: "take (length (takeWhile allowed_char ?xs)) ?xs = takeWhile allowed_char ?xs"
      by (rule takeWhile_eq_take [symmetric])
    have "splice s ''-'' acc li (exec_all unsafe_chunk_chars s li)
        = splice s ''-'' (acc @ takeWhile allowed_char ?xs @ ''-'') ?e
            (exec_all unsafe_chunk_chars s ?e)"
      using i_le by (simp add: all between min_absorb1 Let_def)
    also have "\<dots> = (acc @ takeWhile allowed_char ?xs @ ''-'') @ collapse_runs (drop ?e s)"
      using e_le less.prems by (intro less.hyps) simp_all
    also have "\<dots> = acc @ collapse_runs ?xs"
    proof -
      have "collapse_runs ?xs = takeWhile allowed_char ?xs
          @ CHR ''-'' # collapse_runs (dropWhile (\<lambda>c. \<not> allowed_char c) cs)"
        using c_bad by (subst collapse_runs_split) (simp add: Cons)
      then show ?thesis unfolding rest by simp
    qed
    finally show ?thesis .
  qed
qed

fun no_adjacent_unsafe :: "string \<Rightarrow> bool" where
  "no_adjacent_unsafe (c # d # cs) = ((allowed_char c \<or> allowed_char d) \<and> no_adjacent_unsafe (d # cs))"
| "no_adjacent_unsafe cs = True"

lemma collapse_runs_single:
  "no_adjacent_unsafe xs \<Longrightarrow>
     collapse_runs xs = map (\<lambda>c. if allowed_char c then c else CHR ''-'') xs"
proof (induction xs rule: no_adjacent_unsafe.induct)
  case (1 c d cs)
  then show ?case by auto
qed simp_all

text \<open>
  C8 (amended): the file-system-safe name of a group keeps the characters of the class
  \<open>[A-Za-z0-9.\\-_]\<close> and replaces every maximal run of other characters by one
  \<open>-\<close>; when no two such characters stand next to each other, each of them is
  replaced by its own \<open>-\<close> and the name keeps its length.
\<close>

theorem safeChunkName_collapses_runs:
  "safeChunkName chunkName = collapse_runs chunkName \<and>
   (no_adjacent_unsafe chunkName \<longrightarrow>
      safeChunkName chunkName = map (\<lambda>c. if allowed_char c then c else CHR ''-'') chunkName)"
  using splice_unsafe [of 0 chunkName "[]"] collapse_runs_single [of chunkName]
  by (simp add: safeChunkName_def string_replace_def unsafe_chunk_chars_fields)

theorem safeChunkName_collapses_runs_witness:
  "no_adjacent_unsafe ''my chunk/1'' \<and> safeChunkName ''my chunk/1'' = ''my-chunk-1''"
proof -
  have "no_adjacent_unsafe ''my chunk/1''"
    by (simp add: allowed_char_def code_def)
  moreover have "map (\<lambda>c. if allowed_char c then c else CHR ''-'') ''my chunk/1'' = ''my-chunk-1''"
    by (simp add: allowed_char_def code_def)
  ultimately show ?thesis
    using safeChunkName_collapses_runs [of "''my chunk/1''"] by metis
qed

text \<open>Two adjacent spaces become one \<open>-\<close>: the name gets shorter.\<close>

theorem safeChunkName_counterexample:
  "safeChunkName ''a  b'' = ''a-b'' \<and> length (safeChunkName ''a  b'') \<noteq> length ''a  b''"
  by code_simp


section \<open>The plugin\<close>

subsection \<open>Objects\<close>

text \<open>
  A key table is an object created by \<open>{}\<close>: its own properties in the order of their
  creation, and behind them the properties it inherits from \<open>Object.prototype\<close>. The
  \<open>in\<close> operator sees both; an assignment creates or overwrites an own property, except
  for the name \<open>__proto__\<close>, whose inherited setter ignores a string. \<open>this.keys\<close>
  itself is created by \<open>Object.create(null)\<close> and has own properties only.
\<close>

type_synonym jsobject = "(string \<times> string) list"

definition object_prototype_properties :: "string list" where
  "object_prototype_properties =
     [''constructor'', ''__defineGetter__'', ''__defineSetter__'', ''hasOwnProperty'',
      ''__lookupGetter__'', ''__lookupSetter__'', ''isPrototypeOf'', ''propertyIsEnumerable'',
      ''toString'', ''valueOf'', ''__proto__'', ''toLocaleString'']"

definition own_property :: "(string \<times> 'v) list \<Rightarrow> string \<Rightarrow> 'v option" where
  "own_property obj k = map_of obj k"

definition js_in :: "string \<Rightarrow> jsobject \<Rightarrow> bool" where
  "js_in k obj = (own_property obj k \<noteq> None \<or> k \<in> set object_prototype_properties)"

fun put_own :: "string \<Rightarrow> 'v \<Rightarrow> (string \<times> 'v) list \<Rightarrow> (string \<times> 'v) list" where
  "put_own k v [] = [(k, v)]"
| "put_own k v ((k', v') # obj) =
     (if k = k' then (k, v) # obj else (k', v') # put_own k v obj)"

definition js_put :: "string \<Rightarrow> string \<Rightarrow> jsobject \<Rightarrow> jsobject" where
  "js_put k v obj = (if k = ''__proto__'' then obj else put_own k v obj)"

text \<open>
  \<open>for (var prop in obj)\<close> visits the own properties whose names are array indices
  first, in ascending numeric order, then the others in the order of their creation.
\<close>

definition decimal_value :: "string \<Rightarrow> nat" where
  "decimal_value k = foldl (\<lambda>acc c. 10 * acc + digit_of c) 0 k"

definition is_array_index :: "string \<Rightarrow> bool" where
  "is_array_index k =
     (k \<noteq> [] \<and> list_all is_digit k \<and> (hd k \<noteq> CHR ''0'' \<or> k = ''0'') \<and>
      int (decimal_value k) < 4294967295)"

definition enumeration :: "(string \<times> 'v) list \<Rightarrow> (string \<times> 'v) list" where
  "enumeration obj =
     sort_key (\<lambda>p. decimal_value (fst p)) (filter (\<lambda>p. is_array_index (fst p)) obj)
       @ filter (\<lambda>p. \<not> is_array_index (fst p)) obj"

text \<open>
  \<open>flipObject\<close>. The guard \<open>obj.hasOwnProperty(prop)\<close> calls the inherited method;
  an own property of that name would hold a string, and calling it throws.
\<close>

definition flipObject :: "jsobject \<Rightarrow> js_error + jsobject" where
  "flipObject obj =
     (if own_property obj ''hasOwnProperty'' \<noteq> None then Inl TypeError
      else Inr (foldl (\<lambda>newObj p. js_put (snd p) (fst p) newObj) [] (enumeration obj)))"

subsection \<open>Configuration\<close>

text \<open>
  The options object and the plugin instance. An option that is absent is \<open>None\<close>;
  \<open>functionPattern\<close> is a string or a regular expression, \<open>groupIndex\<close> a number or
  an array of numbers. The field \<open>output\<close> of the instance is \<open>output_option\<close> here.
\<close>

datatype pattern = PatString string | PatRegExp regexp

datatype group_index = IndexNumber nat | IndexList "nat list"

record options =
  opt_functionPattern :: "pattern option"
  opt_functionReplace :: "string option"
  opt_groupIndex :: "group_index option"
  opt_output :: "string option"
  opt_mangle :: "bool option"
  opt_moduleFilter :: "regexp list option"

record plugin =
  functionPattern :: pattern
  functionReplace :: string
  groupIndex :: "nat list"
  output_option :: "string option"
  mangle :: bool
  moduleFilter :: "regexp list"

text \<open>
  The defaults: the pattern
  \<open>/gettext\\(\\s*(?:"([^"\\\\]*(?:\\\\.[^"\\\\]*)*)(")|'([^'\\\\]*(?:\\\\.[^'\\\\]*)*)('))/gm\<close>
  and the filter chain
  \<open>[ /((?:[^!?\\s]+?)(?:\\.js|\\.jsx|\\.ts))$/, /^((?!node_modules).)*$/ ]\<close>.
\<close>

definition white_space :: "(char \<times> char) list" where
  "white_space = [(CHR 0x09, CHR 0x0D), (CHR '' '', CHR '' ''), (CHR 0xA0, CHR 0xA0)]"

definition any_char :: regex where
  "any_char = Chars True [(CHR 0x0A, CHR 0x0A), (CHR 0x0D, CHR 0x0D)]"

definition quoted_body :: "char \<Rightarrow> regex" where
  "quoted_body q =
     Seq (Star True (Chars True [(q, q), (CHR 0x5C, CHR 0x5C)]))
       (Star True (Seq (lit CHR 0x5C)
          (Seq any_char (Star True (Chars True [(q, q), (CHR 0x5C, CHR 0x5C)])))))"

definition default_functionPattern :: regexp where
  "default_functionPattern =
     \<lparr>source = Seq (lits ''gettext('') (Seq (Star True (Chars False white_space))
        (Alt (Seq (lit CHR 0x22) (Seq (Group 1 (quoted_body CHR 0x22)) (Group 2 (lit CHR 0x22))))
             (Seq (lit CHR 0x27) (Seq (Group 3 (quoted_body CHR 0x27)) (Group 4 (lit CHR 0x27)))))),
      global = True, ignoreCase = False, multiline = True\<rparr>"

definition default_moduleFilter :: "regexp list" where
  "default_moduleFilter =
     [\<lparr>source = Seq (Group 1
          (Seq (Seq (Chars True ([(CHR ''!'', CHR ''!''), (CHR ''?'', CHR ''?'')] @ white_space))
                  (Star False (Chars True ([(CHR ''!'', CHR ''!''), (CHR ''?'', CHR ''?'')] @ white_space))))
             (Alt (lits ''.js'') (Alt (lits ''.jsx'') (lits ''.ts''))))) Eol,
        global = False, ignoreCase = False, multiline = False\<rparr>,
      \<lparr>source = Seq Bol (Seq (Star True (Group 1 (Seq (Look False (lits ''node_modules'')) any_char))) Eol),
        global = False, ignoreCase = False, multiline = False\<rparr>]"

text \<open>
  The constructor. \<open>options.x || default\<close> takes the default for an absent option, an
  empty string and the number 0. The result is the error message of the \<open>throw\<close>, or
  the instance.
\<close>

definition pattern_truthy :: "pattern option \<Rightarrow> bool" where
  "pattern_truthy p = (case p of None \<Rightarrow> False | Some (PatString s) \<Rightarrow> s \<noteq> [] | Some (PatRegExp re) \<Rightarrow> True)"

definition string_truthy :: "string option \<Rightarrow> bool" where
  "string_truthy v = (case v of None \<Rightarrow> False | Some s \<Rightarrow> s \<noteq> [])"

definition ExtractTranslationRegexPlugin :: "options \<Rightarrow> string + plugin" where
  "ExtractTranslationRegexPlugin options =
     (let this = \<lparr>
        functionPattern =
          (case opt_functionPattern options of
             Some p \<Rightarrow> if pattern_truthy (Some p) then p else PatRegExp default_functionPattern
           | None \<Rightarrow> PatRegExp default_functionPattern),
        functionReplace =
          (case opt_functionReplace options of
             Some r \<Rightarrow> if r \<noteq> [] then r else ''gettext($2$4$1$3$2$4''
           | None \<Rightarrow> ''gettext($2$4$1$3$2$4''),
        groupIndex =
          (case opt_groupIndex options of
             Some (IndexList indices) \<Rightarrow> indices
           | Some (IndexNumber i) \<Rightarrow> if i \<noteq> 0 then [i] else [1, 3]
           | None \<Rightarrow> [1, 3]),
        output_option = opt_output options,
        mangle = (case opt_mangle options of Some b \<Rightarrow> b | None \<Rightarrow> False),
        moduleFilter =
          (case opt_moduleFilter options of Some f \<Rightarrow> f | None \<Rightarrow> default_moduleFilter)\<rparr>
      in if pattern_truthy (opt_functionPattern options)
            \<and> \<not> string_truthy (opt_functionReplace options)
         then Inl ''ExtractTranslationRegexPlugin: If you provide functionPattern, you must provide functionReplace''
         else Inr this)"

definition no_options :: options where
  "no_options = \<lparr>opt_functionPattern = None, opt_functionReplace = None, opt_groupIndex = None,
     opt_output = None, opt_mangle = None, opt_moduleFilter = None\<rparr>"

subsection \<open>Helpers of the plugin\<close>

text \<open>
  \<open>sanitizeForRegexp\<close> puts a backslash before every character of
  \<open>[\\-\\[\\]\\/{}()*+?.\\\\\\^$|]\<close>. \<open>regexp_of_escaped\<close> is \<open>new RegExp(src, flags)\<close>
  for a source in which every syntax character is escaped, as the plugin builds them: the
  pattern of the literal text. \<open>ensureRegExp\<close> forces the flags \<open>g\<close> and \<open>m\<close>.
\<close>

definition special_chars :: regexp where
  "special_chars =
     \<lparr>source = Chars False (map (\<lambda>c. (c, c)) (''-[]/{}()*+?.'' @ [CHR 0x5C] @ ''^$|'')),
      global = True, ignoreCase = False, multiline = False\<rparr>"

definition sanitizeForRegexp :: "string \<Rightarrow> string" where
  "sanitizeForRegexp regexpString = string_replace regexpString special_chars (CHR 0x5C # ''$&'')"

fun unescape :: "string \<Rightarrow> string" where
  "unescape [] = []"
| "unescape [c] = [c]"
| "unescape (c # d # cs) = (if c = CHR 0x5C then d # unescape cs else c # unescape (d # cs))"

definition regexp_of_escaped :: "string \<Rightarrow> string \<Rightarrow> regexp" where
  "regexp_of_escaped src flags =
     \<lparr>source = lits (unescape src), global = (CHR ''g'' \<in> set flags),
      ignoreCase = (CHR ''i'' \<in> set flags), multiline = (CHR ''m'' \<in> set flags)\<rparr>"

definition ensureRegExp :: "pattern \<Rightarrow> regexp" where
  "ensureRegExp p =
     (case p of
        PatString s \<Rightarrow> regexp_of_escaped (sanitizeForRegexp s) ''gm''
      | PatRegExp re \<Rightarrow> re\<lparr>global := True, multiline := True\<rparr>)"

text \<open>
  \<open>getKeyIndexFromMatch\<close>: \<open>match[index]\<close> is the whole match for index 0, a group
  otherwise, \<open>undefined\<close> beyond the array; \<open>None\<close> is the result \<open>-1\<close>.
\<close>

definition match_at :: "jsmatch \<Rightarrow> nat \<Rightarrow> string option" where
  "match_at m i = (if i = 0 then Some (full m) else get_capture (groups m) i)"

fun getKeyIndexFromMatch :: "jsmatch \<Rightarrow> nat list \<Rightarrow> nat option" where
  "getKeyIndexFromMatch m [] = None"
| "getKeyIndexFromMatch m (i # indices) =
     (if string_truthy (match_at m i) then Some i
      else getKeyIndexFromMatch m indices)"

fun decimal :: "nat \<Rightarrow> string" where
  "decimal n = (if n < 10 then [char_of (48 + n)] else decimal (n div 10) @ [char_of (48 + n mod 10)])"

declare decimal.simps [simp del]

subsection \<open>The pass over the chunks\<close>

text \<open>
  The handler of \<open>optimize-chunks\<close>. Its state is \<open>this.keys\<close>, the counter of
  \<open>this.generator\<close> and \<open>compilation.errors\<close>; a module is its \<open>userRequest\<close> and
  the text \<open>_source._value\<close>. A loop either goes on (\<open>Next\<close>), leaves the handler by
  the \<open>return false\<close> of the error branch (\<open>Abort\<close>), or throws.
\<close>

record run_state =
  keys :: "(string \<times> jsobject) list"
  generator :: nat
  errors :: "string list"

record jsmodule =
  userRequest :: "string option"
  source_value :: string

record chunk =
  name :: string
  modules :: "jsmodule list"

datatype 'a flow = Next 'a | Abort 'a | Throw js_error

definition no_capture_error :: string where
  "no_capture_error = ''ExtractTranslationRegexPlugin: The provided `functionPattern` regular expression do not contain capture block. Please check your webpack.config.js file.''"

text \<open>
  The block that saves the key of one match: the table of the chunk is created when
  missing, and a value that is not \<open>in\<close> the table is entered with the key, which is
  the next generated one under mangling and the value itself otherwise. The first
  component is the variable \<open>key\<close> afterwards; it is still the value when the value was
  in the table.
\<close>

definition save_key :: "bool \<Rightarrow> string \<Rightarrow> string \<Rightarrow> run_state \<Rightarrow> string \<times> run_state" where
  "save_key mangling chunkName value st =
     (let keys1 = (case own_property (keys st) chunkName of
                     None \<Rightarrow> keys st @ [(chunkName, [])]
                   | Some table \<Rightarrow> keys st);
          table = (case own_property keys1 chunkName of None \<Rightarrow> [] | Some table \<Rightarrow> table)
      in if js_in value table then (value, st\<lparr>keys := keys1\<rparr>)
         else if mangling
           then (fst (gen_next (generator st)),
                 st\<lparr>keys := put_own chunkName (js_put value (fst (gen_next (generator st))) table) keys1,
                    generator := snd (gen_next (generator st))\<rparr>)
           else (value, st\<lparr>keys := put_own chunkName (js_put value value table) keys1\<rparr>))"

text \<open>
  The replacement text: for \<open>i\<close> from 1 to the last group, every \<open>$i\<close> of the
  template is replaced by \<open>tmpMatch[i]\<close>.
\<close>

definition tmpMatch :: "nat list \<Rightarrow> jsmatch \<Rightarrow> nat \<Rightarrow> string \<Rightarrow> nat \<Rightarrow> string" where
  "tmpMatch indices m keyIndex key i =
     (case get_capture (groups m) i of
        None \<Rightarrow> []
      | Some text \<Rightarrow> if i \<in> set indices then (if i = keyIndex then key else []) else text)"

definition build_replacement :: "plugin \<Rightarrow> jsmatch \<Rightarrow> nat \<Rightarrow> string \<Rightarrow> string" where
  "build_replacement this m keyIndex key =
     foldl (\<lambda>replacement i.
              string_replace replacement
                (regexp_of_escaped (CHR 0x5C # CHR ''$'' # decimal i) ''g'')
                (tmpMatch (groupIndex this) m keyIndex key i))
       (functionReplace this) [1 ..< Suc (length (groups m))]"

text \<open>
  The \<open>while ((match = regex.exec(source)) !== null)\<close> loop. The text may grow under
  mangling while \<open>lastIndex\<close> moves by one match, so the loop need not end: \<open>fuel\<close>
  bounds its rounds and \<open>None\<close> is a loop that has not ended within them.
\<close>

fun scan :: "nat \<Rightarrow> plugin \<Rightarrow> string \<Rightarrow> regexp \<Rightarrow> nat \<Rightarrow> string \<Rightarrow> run_state
    \<Rightarrow> (string \<times> run_state) flow option" where
  "scan 0 this chunkName regex lastIndex sourceText st = None"
| "scan (Suc fuel) this chunkName regex lastIndex sourceText st =
     (case regexp_exec regex sourceText lastIndex of
        None \<Rightarrow> Some (Next (sourceText, st))
      | Some (m, lastIndex') \<Rightarrow>
          (case getKeyIndexFromMatch m (groupIndex this) of
             None \<Rightarrow> Some (Abort (sourceText, st\<lparr>errors := errors st @ [no_capture_error]\<rparr>))
           | Some keyIndex \<Rightarrow>
               (let original = full m;
                    value = (case match_at m keyIndex of None \<Rightarrow> [] | Some v \<Rightarrow> v);
                    saved = save_key (mangle this) chunkName value st;
                    sourceText' =
                      (if mangle this
                       then string_replace sourceText
                              (regexp_of_escaped (sanitizeForRegexp original) ''gm'')
                              (build_replacement this m keyIndex (fst saved))
                       else sourceText)
                in scan fuel this chunkName regex lastIndex' sourceText' (snd saved))))"

text \<open>
  The loops over the modules of a chunk and over the chunks. A module takes part when its
  \<open>userRequest\<close> is a non-empty string that passes the filter; its text is written back
  after its loop has ended.
\<close>

definition wanted :: "plugin \<Rightarrow> jsmodule \<Rightarrow> js_error + bool" where
  "wanted this md =
     (if string_truthy (userRequest md) then filterModule (userRequest md) (moduleFilter this)
      else Inr False)"

fun process_modules :: "nat \<Rightarrow> plugin \<Rightarrow> string \<Rightarrow> jsmodule list \<Rightarrow> run_state
    \<Rightarrow> (jsmodule list \<times> run_state) flow option" where
  "process_modules fuel this chunkName [] st = Some (Next ([], st))"
| "process_modules fuel this chunkName (md # mds) st =
     (case wanted this md of
        Inl e \<Rightarrow> Some (Throw e)
      | Inr False \<Rightarrow>
          (case process_modules fuel this chunkName mds st of
             None \<Rightarrow> None
           | Some (Next (mds', st')) \<Rightarrow> Some (Next (md # mds', st'))
           | Some (Abort (mds', st')) \<Rightarrow> Some (Abort (md # mds', st'))
           | Some (Throw e) \<Rightarrow> Some (Throw e))
      | Inr True \<Rightarrow>
          (case scan fuel this chunkName (ensureRegExp (functionPattern this)) 0 (source_value md) st of
             None \<Rightarrow> None
           | Some (Throw e) \<Rightarrow> Some (Throw e)
           | Some (Abort (sourceText, st')) \<Rightarrow> Some (Abort (md # mds, st'))
           | Some (Next (sourceText, st')) \<Rightarrow>
               (case process_modules fuel this chunkName mds st' of
                  None \<Rightarrow> None
                | Some (Next (mds', st'')) \<Rightarrow> Some (Next (md\<lparr>source_value := sourceText\<rparr> # mds', st''))
                | Some (Abort (mds', st'')) \<Rightarrow> Some (Abort (md\<lparr>source_value := sourceText\<rparr> # mds', st''))
                | Some (Throw e) \<Rightarrow> Some (Throw e))))"

fun process_chunks :: "nat \<Rightarrow> plugin \<Rightarrow> chunk list \<Rightarrow> run_state
    \<Rightarrow> (chunk list \<times> run_state) flow option" where
  "process_chunks fuel this [] st = Some (Next ([], st))"
| "process_chunks fuel this (c # cs) st =
     (case process_modules fuel this (name c) (modules c) st of
        None \<Rightarrow> None
      | Some (Throw e) \<Rightarrow> Some (Throw e)
      | Some (Abort (mds', st')) \<Rightarrow> Some (Abort (c\<lparr>modules := mds'\<rparr> # cs, st'))
      | Some (Next (mds', st')) \<Rightarrow>
          (case process_chunks fuel this cs st' of
             None \<Rightarrow> None
           | Some (Next (cs', st'')) \<Rightarrow> Some (Next (c\<lparr>modules := mds'\<rparr> # cs', st''))
           | Some (Abort (cs', st'')) \<Rightarrow> Some (Abort (c\<lparr>modules := mds'\<rparr> # cs', st''))
           | Some (Throw e) \<Rightarrow> Some (Throw e)))"

text \<open>
  After the loops every table is replaced by its flipped table; the error branch returns
  before that.
\<close>

fun flip_all :: "(string \<times> jsobject) list \<Rightarrow> js_error + (string \<times> jsobject) list" where
  "flip_all [] = Inr []"
| "flip_all ((chunkName, table) # rest) =
     (case flipObject table of
        Inl e \<Rightarrow> Inl e
      | Inr flipped \<Rightarrow>
          (case flip_all rest of Inl e \<Rightarrow> Inl e | Inr rest' \<Rightarrow> Inr ((chunkName, flipped) # rest')))"

definition optimize_chunks :: "nat \<Rightarrow> plugin \<Rightarrow> chunk list \<Rightarrow> run_state
    \<Rightarrow> (chunk list \<times> run_state) flow option" where
  "optimize_chunks fuel this chunks st =
     (case process_chunks fuel this chunks st of
        None \<Rightarrow> None
      | Some (Throw e) \<Rightarrow> Some (Throw e)
      | Some (Abort r) \<Rightarrow> Some (Abort r)
      | Some (Next (chunks', st')) \<Rightarrow>
          (case flip_all (keys st') of
             Inl e \<Rightarrow> Some (Throw e)
           | Inr flipped \<Rightarrow> Some (Next (chunks', st'\<lparr>keys := flipped\<rparr>))))"

text \<open>The state that \<open>apply\<close> sets up, and the instance built from no options.\<close>

definition apply_state :: run_state where
  "apply_state = \<lparr>keys = [], generator = 0, errors = []\<rparr>"

definition default_plugin :: plugin where
  "default_plugin = (case ExtractTranslationRegexPlugin no_options of Inr p \<Rightarrow> p)"

subsection \<open>Without mangling the text is not touched\<close>

lemma scan_unmangled:
  "\<not> mangle this \<Longrightarrow> scan fuel this chunkName regex lastIndex sourceText st = Some r \<Longrightarrow>
     \<exists>st'. r = Next (sourceText, st') \<or> r = Abort (sourceText, st')"
proof (induction fuel arbitrary: lastIndex st)
  case 0
  then show ?case by simp
next
  case (Suc fuel)
  show ?case
  proof (cases "regexp_exec regex sourceText lastIndex")
    case None
    with Suc.prems show ?thesis by auto
  next
    case (Some found)
    obtain m lastIndex' where found: "found = (m, lastIndex')" by (cases found)
    show ?thesis
    proof (cases "getKeyIndexFromMatch m (groupIndex this)")
      case None
      with Suc.prems Some found show ?thesis by auto
    next
      case (Some keyIndex)
      with Suc.prems \<open>regexp_exec regex sourceText lastIndex = Some found\<close> found
      show ?thesis by (auto simp: Let_def dest: Suc.IH)
    qed
  qed
qed

lemma process_modules_unmangled:
  "\<not> mangle this \<Longrightarrow>
     process_modules fuel this chunkName mds st = Some (Next (mds', st'))
       \<or> process_modules fuel this chunkName mds st = Some (Abort (mds', st')) \<Longrightarrow>
     mds' = mds"
proof (induction mds arbitrary: st mds' st')
  case Nil
  then show ?case by simp
next
  case (Cons md mds)
  show ?case
  proof (cases "wanted this md")
    case (Inl e)
    with Cons.prems show ?thesis by simp
  next
    case (Inr w)
    show ?thesis
    proof (cases w)
      case False
      with Cons.prems Inr show ?thesis
        by (auto split: option.splits flow.splits dest: Cons.IH)
    next
      case True
      show ?thesis
      proof (cases "scan fuel this chunkName (ensureRegExp (functionPattern this)) 0 (source_value md) st")
        case None
        with Cons.prems Inr True show ?thesis by simp
      next
        case (Some r)
        with scan_unmangled [OF Cons.prems(1) Some] Cons.prems Inr True show ?thesis
          by (auto split: option.splits flow.splits dest: Cons.IH)
      qed
    qed
  qed
qed

lemma process_chunks_unmangled:
  "\<not> mangle this \<Longrightarrow>
     process_chunks fuel this cs st = Some (Next (cs', st'))
       \<or> process_chunks fuel this cs st = Some (Abort (cs', st')) \<Longrightarrow>
     cs' = cs"
proof (induction cs arbitrary: st cs' st')
  case Nil
  then show ?case by simp
next
  case (Cons c cs)
  show ?case
  proof (cases "process_modules fuel this (name c) (modules c) st")
    case None
    with Cons.prems show ?thesis by simp
  next
    case (Some r)
    show ?thesis
    proof (cases r)
      case (Next x)
      obtain mds1 st1 where x: "x = (mds1, st1)" by (cases x)
      with Some Next Cons.prems(1) have "mds1 = modules c"
        by (auto dest: process_modules_unmangled)
      with Cons.prems Some Next x show ?thesis
        by (auto split: option.splits flow.splits dest: Cons.IH)
    next
      case (Abort x)
      obtain mds1 st1 where x: "x = (mds1, st1)" by (cases x)
      with Some Abort Cons.prems(1) have "mds1 = modules c"
        by (auto dest: process_modules_unmangled)
      with Cons.prems Some Abort x show ?thesis by auto
    next
      case (Throw e)
      with Cons.prems Some show ?thesis by simp
    qed
  qed
qed

lemma optimize_chunks_unmangled:
  assumes "\<not> mangle this"
    and "optimize_chunks fuel this chunks st = Some (Next (chunks', st'))
       \<or> optimize_chunks fuel this chunks st = Some (Abort (chunks', st'))"
  shows "chunks' = chunks"
  using assms process_chunks_unmangled [of this fuel chunks st chunks']
  by (auto simp: optimize_chunks_def split: option.splits flow.splits sum.splits)


subsection \<open>Without mangling every table is the identity\<close>

















subsection \<open>The error of a match without a key\<close>

lemma save_key_errors: "errors (snd (save_key mangling chunkName value st)) = errors st"
  by (simp add: save_key_def Let_def)

definition errors_after :: "run_state \<Rightarrow> ('a \<times> run_state) flow \<Rightarrow> bool" where
  "errors_after st r =
     (case r of
        Next (x, st') \<Rightarrow> errors st' = errors st
      | Abort (x, st') \<Rightarrow> errors st' = errors st @ [no_capture_error]
      | Throw e \<Rightarrow> True)"

lemma errors_after_simps [simp]:
  "errors_after st (Next (x, st')) = (errors st' = errors st)"
  "errors_after st (Abort (x, st')) = (errors st' = errors st @ [no_capture_error])"
  "errors_after st (Throw e) = True"
  by (simp_all add: errors_after_def)

lemma errors_after_cong: "errors st1 = errors st \<Longrightarrow> errors_after st1 r = errors_after st r"
  by (simp add: errors_after_def split: flow.splits)

lemma scan_errors:
  "scan fuel this chunkName regex lastIndex sourceText st = Some r \<Longrightarrow> errors_after st r"
proof (induction fuel arbitrary: lastIndex sourceText st)
  case 0
  then show ?case by simp
next
  case (Suc fuel)
  show ?case
  proof (cases "regexp_exec regex sourceText lastIndex")
    case None
    with Suc.prems show ?thesis by auto
  next
    case (Some found)
    obtain m lastIndex' where found: "found = (m, lastIndex')" by (cases found)
    show ?thesis
    proof (cases "getKeyIndexFromMatch m (groupIndex this)")
      case None
      with Suc.prems Some found show ?thesis by auto
    next
      case (Some keyIndex)
      with Suc.prems \<open>regexp_exec regex sourceText lastIndex = Some found\<close> found
      obtain v text1 where
        "scan fuel this chunkName regex lastIndex' text1
           (snd (save_key (mangle this) chunkName v st)) = Some r"
        by (simp add: Let_def)
      from Suc.IH [OF this] show ?thesis
        by (simp add: errors_after_cong [OF save_key_errors])
    qed
  qed
qed

lemma process_modules_errors:
  "process_modules fuel this chunkName mds st = Some r \<Longrightarrow> errors_after st r"
proof (induction mds arbitrary: st r)
  case Nil
  then show ?case by auto
next
  case (Cons md mds)
  show ?case
  proof (cases "wanted this md")
    case (Inl e)
    with Cons.prems show ?thesis by auto
  next
    case (Inr w)
    show ?thesis
    proof (cases w)
      case False
      with Cons.prems Inr obtain r2 where r2: "process_modules fuel this chunkName mds st = Some r2"
        by (cases "process_modules fuel this chunkName mds st") simp_all
      from Cons.IH [OF r2] Cons.prems Inr False r2 show ?thesis
        by (cases r2) auto
    next
      case True
      show ?thesis
      proof (cases "scan fuel this chunkName (ensureRegExp (functionPattern this)) 0 (source_value md) st")
        case None
        with Cons.prems Inr True show ?thesis by simp
      next
        case (Some r1)
        note sc = scan_errors [OF Some]
        show ?thesis
        proof (cases r1)
          case (Next x)
          obtain text1 st1 where x: "x = (text1, st1)" by (cases x)
          with sc Next have e1: "errors st1 = errors st" by simp
          from Cons.prems Inr True Some Next x
          obtain r2 where r2: "process_modules fuel this chunkName mds st1 = Some r2"
            by (cases "process_modules fuel this chunkName mds st1") simp_all
          from Cons.IH [OF r2] Cons.prems Inr True Some Next x r2 e1 show ?thesis
            by (cases r2) auto
        next
          case (Abort x)
          with sc Cons.prems Inr True Some show ?thesis by (cases x) auto
        next
          case (Throw e)
          with Cons.prems Inr True Some show ?thesis by auto
        qed
      qed
    qed
  qed
qed

lemma process_chunks_errors:
  "process_chunks fuel this cs st = Some r \<Longrightarrow> errors_after st r"
proof (induction cs arbitrary: st r)
  case Nil
  then show ?case by auto
next
  case (Cons c cs)
  show ?case
  proof (cases "process_modules fuel this (name c) (modules c) st")
    case None
    with Cons.prems show ?thesis by simp
  next
    case (Some r1)
    note pm = process_modules_errors [OF Some]
    show ?thesis
    proof (cases r1)
      case (Next x)
      obtain mds1 st1 where x: "x = (mds1, st1)" by (cases x)
      with pm Next have e1: "errors st1 = errors st" by simp
      from Cons.prems Some Next x
      obtain r2 where r2: "process_chunks fuel this cs st1 = Some r2"
        by (cases "process_chunks fuel this cs st1") simp_all
      from Cons.IH [OF r2] Cons.prems Some Next x r2 e1 show ?thesis
        by (cases r2) auto
    next
      case (Abort x)
      with pm Cons.prems Some show ?thesis by (cases x) auto
    next
      case (Throw e)
      with Cons.prems Some show ?thesis by auto
    qed
  qed
qed

lemma optimize_chunks_errors:
  assumes "optimize_chunks fuel this chunks st = Some r"
  shows "errors_after st r"
proof (cases "process_chunks fuel this chunks st")
  case None
  with assms show ?thesis by (simp add: optimize_chunks_def)
next
  case (Some r1)
  note pc = process_chunks_errors [OF Some]
  show ?thesis
  proof (cases r1)
    case (Next x)
    obtain cs1 st1 where x: "x = (cs1, st1)" by (cases x)
    with pc Next have e1: "errors st1 = errors st" by simp
    show ?thesis
    proof (cases "flip_all (keys st1)")
      case (Inl e)
      with assms Some Next x show ?thesis by (auto simp: optimize_chunks_def)
    next
      case (Inr flipped)
      with assms Some Next x have "r = Next (cs1, st1\<lparr>keys := flipped\<rparr>)"
        by (simp add: optimize_chunks_def)
      with e1 show ?thesis by simp
    qed
  next
    case (Abort x)
    with assms Some have "r = Abort x" by (simp add: optimize_chunks_def)
    with pc Abort show ?thesis by simp
  next
    case (Throw e)
    with assms Some show ?thesis by (auto simp: optimize_chunks_def)
  qed
qed

subsection \<open>The pass returns\<close>

definition keyed_matches_consume :: "plugin \<Rightarrow> string \<Rightarrow> bool" where
  "keyed_matches_consume this sourceText =
     (\<forall>lastIndex m e.
        regexp_exec (ensureRegExp (functionPattern this)) sourceText lastIndex = Some (m, e) \<and>
        getKeyIndexFromMatch m (groupIndex this) \<noteq> None \<longrightarrow> full m \<noteq> [])"

lemma global_ensureRegExp: "global (ensureRegExp p)"
  by (cases p) (simp_all add: ensureRegExp_def regexp_of_escaped_def)

lemma scan_returns:
  "\<not> mangle this \<Longrightarrow> keyed_matches_consume this sourceText \<Longrightarrow>
     lastIndex \<le> length sourceText \<Longrightarrow> length sourceText + 1 < fuel + lastIndex \<Longrightarrow>
     scan fuel this chunkName (ensureRegExp (functionPattern this)) lastIndex sourceText st \<noteq> None"
proof (induction fuel arbitrary: lastIndex st)
  case 0
  then show ?case by simp
next
  case (Suc fuel)
  let ?regex = "ensureRegExp (functionPattern this)"
  show ?case
  proof (cases "regexp_exec ?regex sourceText lastIndex")
    case None
    then show ?thesis by simp
  next
    case (Some found)
    obtain m e where found: "found = (m, e)" by (cases found)
    show ?thesis
    proof (cases "getKeyIndexFromMatch m (groupIndex this)")
      case None
      with Some found show ?thesis by simp
    next
      case (Some keyIndex)
      with Suc.prems(2) \<open>regexp_exec ?regex sourceText lastIndex = Some found\<close> found
      have "full m \<noteq> []" by (auto simp: keyed_matches_consume_def)
      with regexp_exec_bounds [of ?regex sourceText lastIndex m e]
        \<open>regexp_exec ?regex sourceText lastIndex = Some found\<close> found
      have "lastIndex < e" "e \<le> length sourceText" by (simp_all add: global_ensureRegExp)
      with Suc.prems(4) have "length sourceText + 1 < fuel + e" by simp
      from Suc.IH [OF Suc.prems(1,2) \<open>e \<le> length sourceText\<close> this]
      show ?thesis
        using Some \<open>regexp_exec ?regex sourceText lastIndex = Some found\<close> found Suc.prems(1)
        by (simp add: Let_def)
    qed
  qed
qed


fun consuming :: "regex \<Rightarrow> bool" where
  "consuming (Chars neg rs) = True"
| "consuming (Seq r1 r2) = (consuming r1 \<or> consuming r2)"
| "consuming (Alt r1 r2) = (consuming r1 \<and> consuming r2)"
| "consuming (Group n r) = consuming r"
| "consuming r = False"

lemma extends_length: "extends st st' \<Longrightarrow> length (fst st) \<le> length (fst st')"
  by (auto simp: extends_def)

lemma matcher_consuming:
  "consuming r \<Longrightarrow> st' \<in> set (matcher ic ml r st) \<Longrightarrow> length (fst st) < length (fst st')"
proof (induction r arbitrary: st st')
  case (Chars neg rs)
  then show ?case
    by (cases st; cases "fst (snd st)") (auto split: if_splits)
next
  case (Seq r1 r2)
  from Seq.prems(2) obtain mid where mid: "mid \<in> set (matcher ic ml r1 st)"
    and st': "st' \<in> set (matcher ic ml r2 mid)"
    by auto
  from mid st' have le: "length (fst st) \<le> length (fst mid)" "length (fst mid) \<le> length (fst st')"
    by (auto dest!: matcher_extends extends_length)
  from Seq.prems(1) have "consuming r1 \<or> consuming r2" by simp
  then show ?case
  proof
    assume "consuming r1"
    with Seq.IH(1) mid le show ?thesis by fastforce
  next
    assume "consuming r2"
    with Seq.IH(2) st' le show ?thesis by fastforce
  qed
next
  case (Alt r1 r2)
  from Alt.prems have "st' \<in> set (matcher ic ml r1 st) \<or> st' \<in> set (matcher ic ml r2 st)"
    by simp
  moreover from Alt.prems(1) have c: "consuming r1" "consuming r2" by simp_all
  ultimately show ?case
    using Alt.IH(1) [OF c(1)] Alt.IH(2) [OF c(2)] by blast
next
  case (Group n r)
  obtain pre rest caps where st: "st = (pre, rest, caps)" by (cases st)
  with Group.prems(2) obtain mid where mid: "mid \<in> set (matcher ic ml r st)"
    and "fst st' = fst mid"
    by auto
  with Group.IH [OF _ mid] Group.prems(1) show ?case by simp
qed simp_all

lemma search_consuming:
  "consuming (source re) \<Longrightarrow> search re pre rest = Some (m, e) \<Longrightarrow> full m \<noteq> []"
proof (induction re pre rest rule: search.induct)
  case (1 re pre rest)
  let ?start = "(pre, rest, replicate (ngroups (source re)) None)"
  show ?case
  proof (cases "matcher (ignoreCase re) (multiline re) (source re) ?start")
    case Nil
    then have "search re pre rest = (case rest of [] \<Rightarrow> None | c # cs \<Rightarrow> search re (pre @ [c]) cs)"
      by (subst search.simps) simp
    with 1(3) obtain c cs where rest: "rest = c # cs"
      and rec: "search re (pre @ [c]) cs = Some (m, e)"
      by (cases rest) auto
    from 1(1) [OF Nil rest 1(2) rec] show ?thesis .
  next
    case (Cons st sts)
    then have "length pre < length (fst st)"
      using matcher_consuming [OF 1(2), of st "ignoreCase re" "multiline re" ?start] by simp
    moreover from Cons have "search re pre rest =
        Some (\<lparr>index = length pre, full = drop (length pre) (fst st), groups = snd (snd st)\<rparr>,
              length (fst st))"
      by (subst search.simps) (simp split: prod.splits)
    ultimately show ?thesis
      using 1(3) by auto
  qed
qed

lemma regexp_exec_consuming:
  "consuming (source re) \<Longrightarrow> regexp_exec re s i = Some (m, e) \<Longrightarrow> full m \<noteq> []"
  by (auto simp: regexp_exec_def Let_def split: if_splits option.splits dest: search_consuming)

definition consuming_pattern :: "pattern \<Rightarrow> bool" where
  "consuming_pattern p = consuming (source (ensureRegExp p))"

lemma consuming_keyed_matches:
  "consuming_pattern (functionPattern this) \<Longrightarrow> keyed_matches_consume this sourceText"
  by (auto simp: keyed_matches_consume_def consuming_pattern_def dest: regexp_exec_consuming)

lemma process_modules_returns:
  "\<not> mangle this \<Longrightarrow> consuming_pattern (functionPattern this) \<Longrightarrow>
     \<forall>md \<in> set mds. length (source_value md) + 1 < fuel \<Longrightarrow>
     process_modules fuel this chunkName mds st \<noteq> None"
proof (induction mds arbitrary: st)
  case Nil
  show ?case by simp
next
  case (Cons md mds)
  from Cons.prems have rest: "process_modules fuel this chunkName mds st1 \<noteq> None" for st1
    by (intro Cons.IH) simp_all
  show ?case
  proof (cases "wanted this md")
    case (Inl e)
    then show ?thesis by simp
  next
    case (Inr w)
    show ?thesis
    proof (cases w)
      case False
      from rest [of st] obtain r2 where "process_modules fuel this chunkName mds st = Some r2"
        by auto
      with Inr False show ?thesis by (cases r2) auto
    next
      case True
      from Cons.prems have
        "scan fuel this chunkName (ensureRegExp (functionPattern this)) 0 (source_value md) st \<noteq> None"
        by (intro scan_returns consuming_keyed_matches) simp_all
      then obtain r1 where
        r1: "scan fuel this chunkName (ensureRegExp (functionPattern this)) 0 (source_value md) st = Some r1"
        by auto
      show ?thesis
      proof (cases r1)
        case (Next x)
        obtain text1 st1 where x: "x = (text1, st1)" by (cases x)
        from rest [of st1] obtain r2 where "process_modules fuel this chunkName mds st1 = Some r2"
          by auto
        with Inr True r1 Next x show ?thesis by (cases r2) auto
      next
        case (Abort x)
        with Inr True r1 show ?thesis by (cases x) simp
      next
        case (Throw e)
        with Inr True r1 show ?thesis by simp
      qed
    qed
  qed
qed

lemma process_chunks_returns:
  "\<not> mangle this \<Longrightarrow> consuming_pattern (functionPattern this) \<Longrightarrow>
     \<forall>c \<in> set cs. \<forall>md \<in> set (modules c). length (source_value md) + 1 < fuel \<Longrightarrow>
     process_chunks fuel this cs st \<noteq> None"
proof (induction cs arbitrary: st)
  case Nil
  show ?case by simp
next
  case (Cons c cs)
  from Cons.prems have rest: "process_chunks fuel this cs st1 \<noteq> None" for st1
    by (intro Cons.IH) simp_all
  from Cons.prems have "process_modules fuel this (name c) (modules c) st \<noteq> None"
    by (intro process_modules_returns) simp_all
  then obtain r1 where r1: "process_modules fuel this (name c) (modules c) st = Some r1"
    by auto
  show ?case
  proof (cases r1)
    case (Next x)
    obtain mds1 st1 where x: "x = (mds1, st1)" by (cases x)
    from rest [of st1] obtain r2 where "process_chunks fuel this cs st1 = Some r2"
      by auto
    with r1 Next x show ?thesis by (cases r2) auto
  next
    case (Abort x)
    with r1 show ?thesis by (cases x) simp
  next
    case (Throw e)
    with r1 show ?thesis by simp
  qed
qed

lemma optimize_chunks_returns:
  assumes "\<not> mangle this" and "consuming_pattern (functionPattern this)"
    and "\<forall>c \<in> set chunks. \<forall>md \<in> set (modules c). length (source_value md) + 1 < fuel"
  shows "optimize_chunks fuel this chunks st \<noteq> None"
proof -
  from process_chunks_returns [OF assms] obtain r1
    where "process_chunks fuel this chunks st = Some r1" by auto
  then show ?thesis
    by (auto simp: optimize_chunks_def split: flow.splits sum.splits)
qed

subsection \<open>Runs of the handler\<close>

definition plain_chunks :: "chunk list" where
  "plain_chunks =
     [\<lparr>name = ''main'',
       modules = [\<lparr>userRequest = Some ''/src/a.js'',
                   source_value = ''gettext('k') + gettext('k2') + gettext('k')''\<rparr>]\<rparr>]"

lemma plain_run:
  "optimize_chunks 50 default_plugin plain_chunks apply_state =
     Some (Next (plain_chunks,
       \<lparr>keys = [(''main'', [(''k'', ''k''), (''k2'', ''k2'')])], generator = 0, errors = []\<rparr>))"
  by code_simp

lemma default_plugin_fields:
  "mangle default_plugin = False"
  "groupIndex default_plugin = [1, 3]"
  "functionPattern default_plugin = PatRegExp default_functionPattern"
  by (simp_all add: default_plugin_def ExtractTranslationRegexPlugin_def no_options_def
      pattern_truthy_def string_truthy_def)

lemma consuming_default: "consuming_pattern (functionPattern default_plugin)"
  by (simp add: default_plugin_fields consuming_pattern_def ensureRegExp_def
      default_functionPattern_def lit_def)

text \<open>
  C9: without mangling the handler writes back to every module the text it read: the
  chunks after the pass, whether it ran to its end or left through the error branch, are
  the chunks before it. The pass does return when every match of the pattern consumes a
  character and the fuel exceeds the length of every text by more than one.
\<close>

theorem unmangled_text_unchanged:
  "\<not> mangle this \<Longrightarrow>
     (optimize_chunks fuel this chunks st = Some (Next (chunks', st'))
        \<or> optimize_chunks fuel this chunks st = Some (Abort (chunks', st'))
      \<longrightarrow> chunks' = chunks) \<and>
     (consuming_pattern (functionPattern this) \<and>
      (\<forall>c \<in> set chunks. \<forall>md \<in> set (modules c). length (source_value md) + 1 < fuel)
      \<longrightarrow> optimize_chunks fuel this chunks st \<noteq> None)"
  using optimize_chunks_unmangled [of this fuel chunks st chunks' st']
    optimize_chunks_returns [of this chunks fuel st]
  by blast

theorem unmangled_text_unchanged_witness:
  "\<not> mangle default_plugin \<and>
   optimize_chunks 50 default_plugin plain_chunks apply_state =
     Some (Next (plain_chunks,
       \<lparr>keys = [(''main'', [(''k'', ''k''), (''k2'', ''k2'')])], generator = 0, errors = []\<rparr>)) \<and>
   consuming_pattern (functionPattern default_plugin) \<and>
   length (source_value (hd (modules (hd plain_chunks)))) + 1 < 50 \<and>
   optimize_chunks 50 default_plugin plain_chunks apply_state \<noteq> None"
proof -
  have nm: "\<not> mangle default_plugin" by (simp add: default_plugin_fields)
  have len: "\<forall>c \<in> set plain_chunks. \<forall>md \<in> set (modules c). length (source_value md) + 1 < 50"
    by (simp add: plain_chunks_def)
  from unmangled_text_unchanged [OF nm, of 50 plain_chunks apply_state] consuming_default len
  have "optimize_chunks 50 default_plugin plain_chunks apply_state \<noteq> None"
    by blast
  with nm plain_run consuming_default show ?thesis
    by (simp add: plain_chunks_def)
qed




definition groupless_options :: options where
  "groupless_options =
     no_options\<lparr>
       opt_functionPattern := Some (PatRegExp
         \<lparr>source = lits ''gettext'', global = False, ignoreCase = False, multiline = False\<rparr>),
       opt_functionReplace := Some ''translate''\<rparr>"

definition groupless_plugin :: plugin where
  "groupless_plugin =
     (case ExtractTranslationRegexPlugin groupless_options of Inr this \<Rightarrow> this)"

definition groupless_chunks :: "chunk list" where
  "groupless_chunks =
     [\<lparr>name = ''main'',
       modules = [\<lparr>userRequest = Some ''/src/a.js'', source_value = ''x = gettext('k')''\<rparr>,
                  \<lparr>userRequest = Some ''/src/b.js'', source_value = ''y = gettext('k2')''\<rparr>]\<rparr>]"

lemma groupless_run:
  "optimize_chunks 20 groupless_plugin groupless_chunks apply_state =
     Some (Abort (groupless_chunks, \<lparr>keys = [], generator = 0, errors = [no_capture_error]\<rparr>))"
  by code_simp

lemma groupless_first_match:
  "regexp_exec (ensureRegExp (functionPattern groupless_plugin)) ''x = gettext('k')'' 0 =
     Some (\<lparr>index = 4, full = ''gettext'', groups = []\<rparr>, 11)"
  "getKeyIndexFromMatch \<lparr>index = 4, full = ''gettext'', groups = []\<rparr> (groupIndex groupless_plugin) = None"
  by code_simp+

text \<open>
  C5: when a match has no key (none of the configured indices holds non-empty text), the
  loop over the matches pushes the error once and leaves; the module is not written and
  no further module or chunk is visited, the tables are not flipped, and the handler
  returns. A pass that left that way has exactly one more error than before, a pass that
  ran to its end has none.
\<close>

theorem match_without_key_aborts:
  "(regexp_exec regex sourceText lastIndex = Some (m, e) \<and>
    getKeyIndexFromMatch m (groupIndex this) = None \<longrightarrow>
      scan (Suc fuel) this chunkName regex lastIndex sourceText st =
        Some (Abort (sourceText, st\<lparr>errors := errors st @ [no_capture_error]\<rparr>))) \<and>
   (wanted this md = Inr True \<and>
    scan fuel this (name c) (ensureRegExp (functionPattern this)) 0 (source_value md) st =
      Some (Abort (text', st')) \<and> modules c = md # mds \<longrightarrow>
      optimize_chunks fuel this (c # cs) st = Some (Abort (c # cs, st'))) \<and>
   (optimize_chunks fuel this chunks st = Some (Abort (chunks', st'')) \<longrightarrow>
      errors st'' = errors st @ [no_capture_error]) \<and>
   (optimize_chunks fuel this chunks st = Some (Next (chunks', st'')) \<longrightarrow>
      errors st'' = errors st)"
proof -
  have "optimize_chunks fuel this (c # cs) st = Some (Abort (c # cs, st'))"
    if "wanted this md = Inr True"
      and "scan fuel this (name c) (ensureRegExp (functionPattern this)) 0 (source_value md) st =
        Some (Abort (text', st'))"
      and "modules c = md # mds"
  proof -
    from that have "process_modules fuel this (name c) (modules c) st = Some (Abort (modules c, st'))"
      by simp
    then show ?thesis
      by (simp add: optimize_chunks_def)
  qed
  moreover have "errors st'' = errors st @ [no_capture_error]"
    if "optimize_chunks fuel this chunks st = Some (Abort (chunks', st''))"
    using optimize_chunks_errors [OF that] by simp
  moreover have "errors st'' = errors st"
    if "optimize_chunks fuel this chunks st = Some (Next (chunks', st''))"
    using optimize_chunks_errors [OF that] by simp
  ultimately show ?thesis by simp
qed

theorem match_without_key_aborts_witness:
  "regexp_exec (ensureRegExp (functionPattern groupless_plugin)) ''x = gettext('k')'' 0 =
     Some (\<lparr>index = 4, full = ''gettext'', groups = []\<rparr>, 11) \<and>
   getKeyIndexFromMatch \<lparr>index = 4, full = ''gettext'', groups = []\<rparr> (groupIndex groupless_plugin) = None \<and>
   scan 20 groupless_plugin ''main'' (ensureRegExp (functionPattern groupless_plugin)) 0
       ''x = gettext('k')'' apply_state =
     Some (Abort (''x = gettext('k')'', \<lparr>keys = [], generator = 0, errors = [no_capture_error]\<rparr>)) \<and>
   optimize_chunks 20 groupless_plugin groupless_chunks apply_state =
     Some (Abort (groupless_chunks, \<lparr>keys = [], generator = 0, errors = [no_capture_error]\<rparr>)) \<and>
   errors \<lparr>keys = [], generator = 0, errors = [no_capture_error]\<rparr> = errors apply_state @ [no_capture_error]"
proof -
  have "scan (Suc 19) groupless_plugin ''main'' (ensureRegExp (functionPattern groupless_plugin)) 0
       ''x = gettext('k')'' apply_state =
     Some (Abort (''x = gettext('k')'', apply_state\<lparr>errors := errors apply_state @ [no_capture_error]\<rparr>))"
    using groupless_first_match
      match_without_key_aborts [
        where regex = "ensureRegExp (functionPattern groupless_plugin)"
          and sourceText = "''x = gettext('k')''" and lastIndex = 0
          and m = "\<lparr>index = 4, full = ''gettext'', groups = []\<rparr>" and e = 11
          and this = groupless_plugin and fuel = 19 and chunkName = "''main''"
          and st = apply_state, THEN conjunct1]
    by blast
  moreover have "errors \<lparr>keys = [], generator = 0, errors = [no_capture_error]\<rparr>
      = errors apply_state @ [no_capture_error]"
    using groupless_run
      match_without_key_aborts [
        where this = groupless_plugin and fuel = 20 and chunks = groupless_chunks
          and st = apply_state and chunks' = groupless_chunks
          and st'' = "\<lparr>keys = [], generator = 0, errors = [no_capture_error]\<rparr>",
        THEN conjunct2, THEN conjunct2, THEN conjunct1]
    by blast
  ultimately show ?thesis
    using groupless_first_match groupless_run by (simp add: apply_state_def)
qed

subsection \<open>Where the code departs from its documentation\<close>

definition two_unit_chunks :: "chunk list" where
  "two_unit_chunks =
     [\<lparr>name = ''main'',
       modules = [\<lparr>userRequest = Some ''/src/a.js'', source_value = ''gettext('k')''\<rparr>,
                  \<lparr>userRequest = Some ''/src/b.js'', source_value = ''gettext('k')''\<rparr>]\<rparr>]"

text \<open>
  C2: under mangling, two modules of one chunk hold the same call \<open>gettext('k')\<close>. The
  first is rewritten to the assigned key \<open>0\<close>. In the second the key is found in the
  table, the variable \<open>key\<close> keeps the original text, and the replacement is built with
  it: the module keeps \<open>gettext('k')\<close>, while the run result maps \<open>0\<close> to \<open>k\<close>.
\<close>

theorem mangle_second_unit_keeps_original_key:
  "optimize_chunks 10 (default_plugin\<lparr>mangle := True\<rparr>) two_unit_chunks apply_state =
     Some (Next
       ([\<lparr>name = ''main'',
          modules = [\<lparr>userRequest = Some ''/src/a.js'', source_value = ''gettext('0')''\<rparr>,
                     \<lparr>userRequest = Some ''/src/b.js'', source_value = ''gettext('k')''\<rparr>]\<rparr>],
        \<lparr>keys = [(''main'', [(''0'', ''k'')])], generator = 1, errors = []\<rparr>))"
  by code_simp

definition inherited_name_chunks :: "chunk list" where
  "inherited_name_chunks =
     [\<lparr>name = ''main'',
       modules = [\<lparr>userRequest = Some ''/src/a.js'',
                   source_value = ''gettext('constructor') + gettext('k')''\<rparr>]\<rparr>]"

definition repeated_key_chunks :: "chunk list" where
  "repeated_key_chunks =
     [\<lparr>name = ''main'',
       modules = [\<lparr>userRequest = Some ''/src/a.js'',
                   source_value = ''gettext('k') gettext('k')''\<rparr>]\<rparr>]"

text \<open>
  C3: the key \<open>constructor\<close> is the name of a property that the table inherits, so
  \<open>value in this.keys[chunk.name]\<close> holds before the key was ever seen and the key is
  never entered: the run result of the first pass holds \<open>k\<close> alone. In the second pass,
  under mangling, one module holds the key \<open>k\<close> twice. The first match rewrites both
  calls to \<open>gettext('0')\<close>; the loop then meets the second call, takes \<open>0\<close> for a key
  not seen before and draws another identifier: the generator has advanced twice and the
  run result maps \<open>1\<close> to \<open>0\<close>.
\<close>

theorem key_table_entry_not_once:
  "optimize_chunks 50 default_plugin inherited_name_chunks apply_state =
     Some (Next (inherited_name_chunks,
       \<lparr>keys = [(''main'', [(''k'', ''k'')])], generator = 0, errors = []\<rparr>)) \<and>
   optimize_chunks 10 (default_plugin\<lparr>mangle := True\<rparr>) repeated_key_chunks apply_state =
     Some (Next
       ([\<lparr>name = ''main'',
          modules = [\<lparr>userRequest = Some ''/src/a.js'',
                      source_value = ''gettext('1') gettext('1')''\<rparr>]\<rparr>],
        \<lparr>keys = [(''main'', [(''1'', ''0''), (''0'', ''k'')])], generator = 2, errors = []\<rparr>))"
  by code_simp

text \<open>
  C4: the constructor throws when a pattern is given without a replacement, and in no
  other case: with \<open>mangle\<close> alone it builds the instance, with the default pattern and
  the default replacement, although the README says that the plugin refuses to run when
  mangling is turned on and no \<open>functionReplace\<close> is provided.
\<close>

theorem constructor_accepts_mangle_alone:
  "ExtractTranslationRegexPlugin (no_options\<lparr>opt_mangle := Some True\<rparr>) =
     Inr (default_plugin\<lparr>mangle := True\<rparr>) \<and>
   mangle (default_plugin\<lparr>mangle := True\<rparr>) = True \<and>
   functionReplace (default_plugin\<lparr>mangle := True\<rparr>) = ''gettext($2$4$1$3$2$4'' \<and>
   ExtractTranslationRegexPlugin (groupless_options\<lparr>opt_functionReplace := None\<rparr>) =
     Inl ''ExtractTranslationRegexPlugin: If you provide functionPattern, you must provide functionReplace''"
  by (simp add: ExtractTranslationRegexPlugin_def no_options_def default_plugin_def
      groupless_options_def pattern_truthy_def string_truthy_def)

lemma constructor_throws_iff:
  "(\<exists>message. ExtractTranslationRegexPlugin options = Inl message) \<longleftrightarrow>
     pattern_truthy (opt_functionPattern options) \<and> \<not> string_truthy (opt_functionReplace options)"
  by (simp add: ExtractTranslationRegexPlugin_def Let_def)

end
